theory Spec2Isabelle
  imports Main "HOL-Library.Sublist"
begin

section \<open>The L language client extension (client/src/extension.ts)\<close>

text \<open>
  A shallow embedding of the VS Code extension that locates, starts and restarts the
  L language server. The module's variables (\<open>client\<close>, \<open>statusBarItem\<close>,
  \<open>outputChannel\<close>, \<open>configChangeTimer\<close>, \<open>isDisposing\<close>) become the fields of a
  record that every function takes and returns. The language client library, the
  editor host, the file system and the timer queue are not part of the repository:
  what the extension asks of them is recorded in the state (calls made, timers armed,
  messages shown), and what they do in return arrives as events.
\<close>

subsection \<open>Values of the libraries the extension talks to\<close>

text \<open>\<open>State\<close> of vscode-languageclient: the public state of the client.\<close>

datatype State = Stopped | Starting | Running

text \<open>The reverse mapping \<open>State[currentState]\<close> used in a log line.\<close>

fun State_name :: "State \<Rightarrow> string" where
  "State_name Stopped = ''Stopped''"
| "State_name Starting = ''Starting''"
| "State_name Running = ''Running''"

datatype ErrorAction = Continue | Shutdown

datatype CloseAction = DoNotRestart | Restart

text \<open>
  A JavaScript error object: its name, its message and its stack text. \<open>error_str\<close>
  is what a template literal prints for it.
\<close>

datatype js_error = JsError (err_name: string) (err_message: string) (err_stack: string)

definition error_str :: "js_error \<Rightarrow> string" where
  "error_str e = (if err_message e = [] then err_name e else err_name e @ '': '' @ err_message e)"

text \<open>Reading a property of \<open>undefined\<close> throws a TypeError.\<close>

definition undefined_read :: "string \<Rightarrow> js_error" where
  "undefined_read prop =
     JsError ''TypeError'' (''Cannot read properties of undefined (reading '' @ prop @ '')'') []"

text \<open>What the methods of an output channel throw once the channel has been disposed.\<close>

definition channel_closed :: js_error where
  "channel_closed = JsError ''Error'' ''Channel has been closed'' []"

text \<open>
  \<open>String.prototype.trim\<close> on strings of one-byte code units: the white space and line
  terminator characters below 256 are TAB, LF, VT, FF, CR, SPACE and NBSP.
\<close>

definition is_js_space :: "char \<Rightarrow> bool" where
  "is_js_space c = (of_char c \<in> {9, 10, 11, 12, 13, 32, 160 :: nat})"

definition js_trim :: "string \<Rightarrow> string" where
  "js_trim s = rev (dropWhile is_js_space (rev (dropWhile is_js_space s)))"

text \<open>\<open>Array.prototype.join\<close> with a separator.\<close>

fun js_join :: "string \<Rightarrow> string list \<Rightarrow> string" where
  "js_join sep [] = []"
| "js_join sep [x] = x"
| "js_join sep (x # y # ys) = x @ sep @ js_join sep (y # ys)"

subsection \<open>The Executable Locator (activate, lines 96-201)\<close>

text \<open>
  What the locator reads: the two configuration values, the environment variable
  (absent or a string), the directory of the bundle, the platform, and the functions of
  Node's \<open>fs\<close> and \<open>path\<close> modules, taken as parameters. \<open>fs.existsSync\<close> is called inside
  \<open>try\<close>, so the parameter may throw.
\<close>

record host =
  cfg_serverPath :: string
  cfg_maxProblems :: int
  env_SERVER_PATH :: "string option"
  dirname :: string
  os_platform :: string
  fs_existsSync :: "string \<Rightarrow> js_error + bool"
  path_join :: "string list \<Rightarrow> string"
  path_normalize :: "string \<Rightarrow> string"
  path_sep :: char

definition exe_name :: "host \<Rightarrow> string" where
  "exe_name h = ''l-language-server'' @ (if os_platform h = ''win32'' then ''.exe'' else [])"

definition possiblePaths :: "host \<Rightarrow> string list" where
  "possiblePaths h =
     [path_join h [dirname h, ''..'', ''..'', ''target'', ''debug'', exe_name h],
      path_join h [dirname h, ''..'', ''..'', ''target'', ''release'', exe_name h],
      path_join h [dirname h, ''..'', ''..'', ''..'', ''target'', ''debug'', exe_name h],
      path_join h [dirname h, ''..'', ''..'', ''..'', ''target'', ''release'', exe_name h],
      ''l-language-server'']"

text \<open>
  The loop over \<open>possiblePaths\<close> (lines 166-177): the first path for which
  \<open>existsSync\<close> returns true is taken and the loop breaks; a call that throws is logged
  and the loop goes on.
\<close>

fun findServer :: "(string \<Rightarrow> js_error + bool) \<Rightarrow> string list \<Rightarrow> string list
    \<Rightarrow> string option \<times> string list" where
  "findServer ex [] log = (None, log)"
| "findServer ex (p # ps) log =
     (let log1 = log @ [''[INFO] Checking path: '' @ p] in
      case ex p of
        Inr True \<Rightarrow> (Some p, log1 @ [''[INFO] Found server at: '' @ p])
      | Inr False \<Rightarrow> findServer ex ps log1
      | Inl e \<Rightarrow>
          findServer ex ps
            (log1 @ [''[WARN] Error checking path '' @ p @ '': '' @ error_str e]))"

text \<open>A \<open>string | undefined\<close> is truthy when it is a non-empty string.\<close>

fun truthy :: "string option \<Rightarrow> bool" where
  "truthy None = False"
| "truthy (Some v) = (v \<noteq> [])"

text \<open>\<open>x || d\<close> for a \<open>string | undefined\<close> and a string.\<close>

fun or_else :: "string option \<Rightarrow> string \<Rightarrow> string" where
  "or_else None d = d"
| "or_else (Some v) d = (if v = [] then d else v)"

text \<open>Lines 107-186: the choice of \<open>serverCommand\<close>, with the lines it logs.\<close>

definition chooseServer :: "host \<Rightarrow> string list \<Rightarrow> string option \<times> string list" where
  "chooseServer h log =
     (let customServerPath = cfg_serverPath h in
      if truthy (Some customServerPath) \<and> js_trim customServerPath \<noteq> [] then
        (Some customServerPath,
         log @ [''[INFO] Using server from configuration: '' @ customServerPath])
      else if truthy (env_SERVER_PATH h) then
        (env_SERVER_PATH h,
         log @ [''[INFO] Using server from SERVER_PATH: '' @ or_else (env_SERVER_PATH h) [] ])
      else
        (let log1 = log @ [''[INFO] Searching for server in possible paths: ''
                            @ js_join '', '' (possiblePaths h)];
             found = findServer (fs_existsSync h) (possiblePaths h) log1
         in if \<not> truthy (fst found) then
              (Some ''l-language-server'',
               snd found @ [''[INFO] No local server found, using fallback command: ''
                             @ ''l-language-server''])
            else found))"

text \<open>Lines 192-201: the check of the final command, which only logs.\<close>

definition verifyServer :: "host \<Rightarrow> string \<Rightarrow> string list \<Rightarrow> string list" where
  "verifyServer h serverCommand log =
     (case fs_existsSync h serverCommand of
        Inr found \<Rightarrow>
          if \<not> found \<and> path_sep h \<notin> set serverCommand then
            log @ [''[WARN] Server command '' @ [CHR 0x27] @ serverCommand @ [CHR 0x27]
                   @ '' not found in PATH. Make sure the server is installed or configured correctly.'']
          else log
      | Inl e \<Rightarrow> log @ [''[WARN] Could not verify server command: '' @ error_str e])"

text \<open>Lines 107-201: the resolved command and the log after it.\<close>

definition locateServer :: "host \<Rightarrow> string list \<Rightarrow> string \<times> string list" where
  "locateServer h log =
     (let chosen = chooseServer h log;
          serverCommand = path_normalize h (or_else (fst chosen) ''l-language-server'');
          log1 = snd chosen @ [''[INFO] Final server command: '' @ serverCommand]
      in (serverCommand, verifyServer h serverCommand log1))"

text \<open>
  A host for concrete runs: a POSIX layout with the bundle in \<open>/ext/dist\<close>, where
  \<open>path.join\<close> puts \<open>/\<close> between the segments and \<open>path.normalize\<close> turns the empty
  string into \<open>.\<close>; nothing exists on disk, no path is configured and \<open>SERVER_PATH\<close> is
  not set.
\<close>

definition posix_host :: host where
  "posix_host =
     \<lparr>cfg_serverPath = [], cfg_maxProblems = 100, env_SERVER_PATH = None,
      dirname = ''/ext/dist'', os_platform = ''linux'',
      fs_existsSync = (\<lambda>p. Inr False),
      path_join = js_join ''/'',
      path_normalize = (\<lambda>p. if p = [] then ''.'' else p),
      path_sep = CHR ''/''\<rparr>"

subsection \<open>The module's state\<close>

record StatusBarItem =
  sb_text :: string
  sb_tooltip :: string
  sb_color :: "string option"
  sb_shown :: bool

text \<open>
  The language client, as far as the extension sees it: its public state, the command
  of the server options it was constructed with (\<open>run\<close> and \<open>debug\<close> are the same
  object), the initialization option, and the calls the extension has made on it, in
  order. \<open>start()\<close> launches the command of the server options, so a start call is
  recorded with that command.
\<close>

datatype client_call = CallStart string | CallStop

record LanguageClient =
  lc_state :: State
  lc_command :: string
  lc_maxProblems :: int
  lc_calls :: "client_call list"

text \<open>
  \<open>restartServer\<close> is an async function: one activation of it runs up to an \<open>await\<close>
  and is resumed later. The places where it waits:
  \<^item> \<open>AwaitStop\<close>: \<open>await client.stop()\<close>, line 452;
  \<^item> \<open>AwaitStateChange\<close>: the promise of lines 459-474, resolved by a state change;
  \<^item> \<open>AwaitStopAfterWait\<close>: \<open>await client.stop()\<close>, line 477;
  \<^item> \<open>AwaitStart\<close>: \<open>await client.start()\<close>, line 491;
  \<^item> \<open>AwaitReady\<close>: the promise of lines 494-511, resolved by a state change;
  \<^item> \<open>Returned\<close>: the activation is over.
\<close>

datatype restart_pc =
  AwaitStop | AwaitStateChange | AwaitStopAfterWait | AwaitStart | AwaitReady | Returned

datatype promise = Pending | Fulfilled | Rejected js_error

text \<open>
  The module variables (each \<open>undefined\<close> until \<open>activate\<close> assigns it, but
  \<open>isDisposing\<close>), the activations of \<open>restartServer\<close> that got past its two guards
  (in the order they began, each with the place where it is), whether
  \<open>activate\<close> and \<open>deactivate\<close> are waiting for their \<open>start()\<close> and \<open>stop()\<close>, and the
  host: whether the output channel has been disposed, the timers that are armed (handle
  and due time, in milliseconds), the clock, and the messages shown with
  \<open>window.showErrorMessage\<close>. \<open>outputChannel\<close> holds the lines appended to the channel.
\<close>

record ext =
  client :: "LanguageClient option"
  statusBarItem :: "StatusBarItem option"
  outputChannel :: "string list option"
  configChangeTimer :: "nat option"
  isDisposing :: bool
  restarts :: "restart_pc list"
  activateStart :: bool
  deactivateStop :: bool
  channelClosed :: bool
  timers :: "(nat \<times> nat) list"
  timerSeq :: nat
  now :: nat
  errorMessages :: "string list"

text \<open>The module as loaded, before \<open>activate\<close> has run.\<close>

definition module_init :: ext where
  "module_init =
     \<lparr>client = None, statusBarItem = None, outputChannel = None, configChangeTimer = None,
      isDisposing = False, restarts = [], activateStart = False,
      deactivateStop = False, channelClosed = False, timers = [], timerSeq = 0, now = 0,
      errorMessages = []\<rparr>"

subsection \<open>Statements that may throw\<close>

text \<open>
  A statement takes the state and returns the state it leaves, with either its value or
  the error it threw: what it did before throwing stays done.
\<close>

type_synonym 'a js = "ext \<Rightarrow> (js_error + 'a) \<times> ext"

definition js_return :: "'a \<Rightarrow> 'a js" where
  "js_return a s = (Inr a, s)"

definition js_throw :: "js_error \<Rightarrow> 'a js" where
  "js_throw e s = (Inl e, s)"

definition js_bind :: "'a js \<Rightarrow> ('a \<Rightarrow> 'b js) \<Rightarrow> 'b js" where
  "js_bind m k s = (case m s of (Inl e, s1) \<Rightarrow> (Inl e, s1) | (Inr a, s1) \<Rightarrow> k a s1)"

definition js_then :: "unit js \<Rightarrow> 'a js \<Rightarrow> 'a js" where
  "js_then m k = js_bind m (\<lambda>_. k)"

definition js_catch :: "'a js \<Rightarrow> (js_error \<Rightarrow> 'a js) \<Rightarrow> 'a js" where
  "js_catch m handler s = (case m s of (Inl e, s1) \<Rightarrow> handler e s1 | (Inr a, s1) \<Rightarrow> (Inr a, s1))"

text \<open>
  \<open>outputChannel.appendLine\<close>: a TypeError while the variable is undefined; the channel
  throws when it has been disposed, and takes the line otherwise.
\<close>

definition appendLine :: "string \<Rightarrow> unit js" where
  "appendLine line s =
     (case outputChannel s of
        None \<Rightarrow> (Inl (undefined_read ''appendLine''), s)
      | Some ls \<Rightarrow>
          if channelClosed s then (Inl channel_closed, s)
          else (Inr (), s\<lparr>outputChannel := Some (ls @ [line])\<rparr>))"

definition showErrorMessage :: "string \<Rightarrow> unit js" where
  "showErrorMessage m s = (Inr (), s\<lparr>errorMessages := errorMessages s @ [m]\<rparr>)"

definition client_stop :: "unit js" where
  "client_stop s =
     (case client s of
        None \<Rightarrow> (Inl (undefined_read ''stop''), s)
      | Some c \<Rightarrow> (Inr (), s\<lparr>client := Some (c\<lparr>lc_calls := lc_calls c @ [CallStop]\<rparr>)\<rparr>))"

definition client_start :: "unit js" where
  "client_start s =
     (case client s of
        None \<Rightarrow> (Inl (undefined_read ''start''), s)
      | Some c \<Rightarrow>
          (Inr (), s\<lparr>client := Some (c\<lparr>lc_calls := lc_calls c @ [CallStart (lc_command c)]\<rparr>)\<rparr>))"

text \<open>
  \<open>setTimeout\<close> arms a timer due after the delay and returns its handle;
  \<open>clearTimeout\<close> disarms it. The only callback this module ever passes to
  \<open>setTimeout\<close> is the one of \<open>handleConfigurationChange\<close>.
\<close>

definition setTimeout :: "nat \<Rightarrow> ext \<Rightarrow> nat \<times> ext" where
  "setTimeout delay s =
     (timerSeq s,
      s\<lparr>timers := timers s @ [(timerSeq s, now s + delay)], timerSeq := Suc (timerSeq s)\<rparr>)"

definition clearTimeout :: "nat \<Rightarrow> ext \<Rightarrow> ext" where
  "clearTimeout h s = s\<lparr>timers := filter (\<lambda>t. fst t \<noteq> h) (timers s)\<rparr>"

text \<open>Decimal digits of a number in a template literal.\<close>

fun show_nat :: "nat \<Rightarrow> string" where
  "show_nat n =
     (if n < 10 then [char_of (48 + n)] else show_nat (n div 10) @ [char_of (48 + n mod 10)])"

subsection \<open>updateStatusBar (lines 369-392)\<close>

text \<open>The three cases of the \<open>switch\<close>: what each writes into the item.\<close>

fun status_for :: "State \<Rightarrow> StatusBarItem \<Rightarrow> StatusBarItem" where
  "status_for Starting item =
     item\<lparr>sb_text := ''$(sync~spin) L Language Server'',
          sb_tooltip := ''L Language Server is starting...'',
          sb_color := None\<rparr>"
| "status_for Running item =
     item\<lparr>sb_text := ''$(check) L Language Server'',
          sb_tooltip := ''L Language Server is running'',
          sb_color := None\<rparr>"
| "status_for Stopped item =
     item\<lparr>sb_text := ''$(x) L Language Server'',
          sb_tooltip := ''L Language Server has stopped'',
          sb_color := Some ''statusBarItem.errorForeground''\<rparr>"

definition updateStatusBar :: "State \<Rightarrow> unit js" where
  "updateStatusBar st s =
     (if isDisposing s then (Inr (), s)
      else case statusBarItem s of
        None \<Rightarrow> (Inl (undefined_read ''text''), s)
      | Some item \<Rightarrow> (Inr (), s\<lparr>statusBarItem := Some (status_for st item)\<rparr>))"

text \<open>
  The subscriber of lines 278-280. The event of \<open>client.onDidChangeState\<close> has two
  fields, the old and the new state.
\<close>

record StateChangeEvent =
  oldState :: State
  newState :: State

definition stateChangeListener :: "StateChangeEvent \<Rightarrow> unit js" where
  "stateChangeListener ev = updateStatusBar (newState ev)"

subsection \<open>The error handler of the client options (lines 242-263)\<close>

text \<open>
  \<open>error\<close> gets the error, the message (here as the text \<open>JSON.stringify\<close> makes of it)
  and the count the client passes with the fault.
\<close>

definition error_alert :: "nat \<Rightarrow> string" where
  "error_alert count =
     ''L Language Server encountered '' @ show_nat count @ '' errors. Check the ''
     @ [CHR 0x22] @ ''L Language'' @ [CHR 0x22] @ '' output channel for details.''"

definition errorHandler_error :: "js_error \<Rightarrow> string \<Rightarrow> nat \<Rightarrow> ErrorAction js" where
  "errorHandler_error error message_json count =
     js_then (appendLine (''[ERROR] LSP Error ('' @ show_nat count @ ''): ''
                @ (if err_message error \<noteq> [] then err_message error else error_str error)))
    (js_then (appendLine (''[ERROR] Message: '' @ message_json))
    (js_then (appendLine (''[ERROR] Stack: ''
                @ (if err_stack error \<noteq> [] then err_stack error
                   else ''No stack trace available'')))
    (js_then (if count \<ge> 5 then showErrorMessage (error_alert count) else js_return ())
    (js_return Continue))))"

definition errorHandler_closed :: "CloseAction js" where
  "errorHandler_closed =
     js_then (appendLine ''[ERROR] LSP connection closed, attempting to restart...'')
       (js_return Restart)"

subsection \<open>restartServer (lines 423-522)\<close>

text \<open>
  A stretch of the body between two \<open>await\<close>s returns \<open>Some pc\<close> when it stops at the
  \<open>await\<close> of \<open>pc\<close>, and \<open>None\<close> when it runs to the end of the progress task.
\<close>

text \<open>Lines 489-491.\<close>

definition start_new_instance :: "restart_pc option js" where
  "start_new_instance =
     js_then (appendLine ''[INFO] Starting new server instance...'')
       (js_then client_start (js_return (Some AwaitStart)))"

text \<open>Lines 448-491, from the start of the progress task to its first \<open>await\<close>.\<close>

definition restart_begin :: "State \<Rightarrow> restart_pc option js" where
  "restart_begin currentState =
     (case currentState of
        Running \<Rightarrow>
          js_then (appendLine ''[INFO] Stopping current server instance...'')
            (js_then client_stop (js_return (Some AwaitStop)))
      | Starting \<Rightarrow>
          js_then (appendLine
                     ''[WARN] Server is currently starting, waiting for it to complete...'')
            (js_return (Some AwaitStateChange))
      | Stopped \<Rightarrow> start_new_instance)"

text \<open>Lines 452-453 and on: the \<open>stop()\<close> of line 452 has settled.\<close>

definition resume_stop :: "js_error option \<Rightarrow> restart_pc option js" where
  "resume_stop r =
     (case r of
        Some e \<Rightarrow> js_throw e
      | None \<Rightarrow> js_then (appendLine ''[INFO] Server stopped successfully'') start_new_instance)"

text \<open>The handler of the inner \<open>try\<close> (lines 484-486).\<close>

definition wait_catch :: "js_error \<Rightarrow> unit js" where
  "wait_catch e = appendLine (''[WARN] Server failed to start during wait: '' @ error_str e)"

text \<open>
  Lines 475-483, inside the inner \<open>try\<close>: the state is read again; \<open>True\<close> stands for
  having stopped at the \<open>await\<close> of line 477.
\<close>

definition check_after_wait :: "bool js" where
  "check_after_wait s =
     (case client s of
        None \<Rightarrow> (Inl (undefined_read ''state''), s)
      | Some c \<Rightarrow>
          if lc_state c = Running then js_then client_stop (js_return True) s
          else js_then (appendLine
                  ''[WARN] Server failed to start, proceeding with restart attempt'')
                 (js_return False) s)"

text \<open>Lines 475-491: the promise of lines 459-474 has been resolved.\<close>

definition after_wait :: "restart_pc option js" where
  "after_wait =
     js_bind
       (js_catch check_after_wait (\<lambda>e. js_then (wait_catch e) (js_return False)))
       (\<lambda>stopping. if stopping then js_return (Some AwaitStopAfterWait) else start_new_instance)"

text \<open>Lines 477-491: the \<open>stop()\<close> of line 477 has settled.\<close>

definition resume_stop_after_wait :: "js_error option \<Rightarrow> restart_pc option js" where
  "resume_stop_after_wait r =
     js_then
       (js_catch
          (case r of
             Some e \<Rightarrow> js_throw e
           | None \<Rightarrow> appendLine ''[INFO] Server stopped successfully'')
          wait_catch)
       start_new_instance"

text \<open>Lines 491-494: the \<open>start()\<close> has settled.\<close>

definition resume_start :: "js_error option \<Rightarrow> restart_pc option js" where
  "resume_start r = (case r of Some e \<Rightarrow> js_throw e | None \<Rightarrow> js_return (Some AwaitReady))"

text \<open>The handler of the outer \<open>try\<close> (lines 514-521).\<close>

definition restart_catch :: "js_error \<Rightarrow> unit js" where
  "restart_catch e =
     js_then (appendLine (''[ERROR] Failed to restart L Language Server: '' @ error_str e))
    (js_then (appendLine (''[ERROR] Error stack: '' @ err_stack e))
       (showErrorMessage (''Failed to restart L Language Server: '' @ error_str e)))"

text \<open>
  Activation \<open>i\<close> is the \<open>i\<close>-th entry of \<open>restarts\<close>; a new activation gets the next
  index.
\<close>

definition place :: "nat \<Rightarrow> restart_pc \<Rightarrow> restart_pc list \<Rightarrow> restart_pc list" where
  "place i pc ts = (if i < length ts then ts[i := pc] else ts @ [pc])"

text \<open>
  A stretch of activation \<open>i\<close> inside the outer \<open>try\<close>: it stops at an \<open>await\<close>, or the
  function returns, or what it threw goes through the outer \<open>catch\<close>. The result is the
  state of the promise \<open>restartServer\<close> returned.
\<close>

definition run_stretch :: "nat \<Rightarrow> restart_pc option js \<Rightarrow> ext \<Rightarrow> promise \<times> ext" where
  "run_stretch i stretch s =
     (case stretch s of
        (Inr (Some pc), s1) \<Rightarrow> (Pending, s1\<lparr>restarts := place i pc (restarts s1)\<rparr>)
      | (Inr None, s1) \<Rightarrow> (Fulfilled, s1\<lparr>restarts := place i Returned (restarts s1)\<rparr>)
      | (Inl e, s1) \<Rightarrow>
          (case restart_catch e s1 of
             (Inr _, s2) \<Rightarrow> (Fulfilled, s2\<lparr>restarts := place i Returned (restarts s2)\<rparr>)
           | (Inl e2, s2) \<Rightarrow> (Rejected e2, s2\<lparr>restarts := place i Returned (restarts s2)\<rparr>)))"

definition as_promise :: "(js_error + unit) \<times> ext \<Rightarrow> promise \<times> ext" where
  "as_promise r = (case r of (Inl e, s) \<Rightarrow> (Rejected e, s) | (Inr _, s) \<Rightarrow> (Fulfilled, s))"

text \<open>
  A call of \<open>restartServer\<close>, up to its first \<open>await\<close>. An async function never throws
  to its caller: what it throws rejects the promise it returns.
\<close>

definition restartServer :: "ext \<Rightarrow> promise \<times> ext" where
  "restartServer s =
     (if isDisposing s then
        as_promise (appendLine ''[WARN] Extension is being disposed, skipping restart'' s)
      else case client s of
        None \<Rightarrow>
          as_promise (appendLine ''[WARN] Cannot restart server: client not initialized'' s)
      | Some c \<Rightarrow>
          (case appendLine (''[INFO] Restarting L Language Server (current state: ''
                             @ State_name (lc_state c) @ '')'') s of
             (Inl e, s1) \<Rightarrow> (Rejected e, s1)
           | (Inr _, s1) \<Rightarrow>
               run_stretch (length (restarts s1)) (restart_begin (lc_state c)) s1))"

subsection \<open>handleConfigurationChange (lines 397-418)\<close>

text \<open>
  The event is what the function asks of it: \<open>event.affectsConfiguration(section)\<close>.
  \<open>changed_keys\<close> is the event the host makes of the settings that changed: it affects a
  section when a changed setting is the section or lies under it.
\<close>

type_synonym ConfigurationChangeEvent = "string \<Rightarrow> bool"

definition changed_keys :: "string list \<Rightarrow> ConfigurationChangeEvent" where
  "changed_keys keys section_name =
     list_ex (\<lambda>k. k = section_name \<or> prefix (section_name @ ''.'') k) keys"

text \<open>The callback of the timer (lines 413-416).\<close>

definition debounce_callback :: "ext \<Rightarrow> ext" where
  "debounce_callback s = (snd (restartServer s))\<lparr>configChangeTimer := None\<rparr>"

definition handleConfigurationChange :: "ConfigurationChangeEvent \<Rightarrow> unit js" where
  "handleConfigurationChange event s =
     (if event ''l-language-server'' then
        if event ''l-language-server.trace.server'' then
          appendLine ''[INFO] Trace configuration changed, no restart needed'' s
        else
          js_then (appendLine ''[INFO] Configuration changed, scheduling server restart'')
            (\<lambda>s1. let s2 = (case configChangeTimer s1 of
                              Some h \<Rightarrow> clearTimeout h s1
                            | None \<Rightarrow> s1);
                       armed = setTimeout 1000 s2
                   in (Inr (), (snd armed)\<lparr>configChangeTimer := Some (fst armed)\<rparr>)) s
      else (Inr (), s))"

subsection \<open>deactivate (lines 330-364)\<close>

datatype deactivate_result = ReturnsUndefined | ReturnsThenable

text \<open>Lines 334-339.\<close>

definition deactivate_timer :: "unit js" where
  "deactivate_timer s =
     (case configChangeTimer s of
        Some h \<Rightarrow>
          appendLine ''[INFO] Cleared pending configuration change timer''
            ((clearTimeout h s)\<lparr>configChangeTimer := None\<rparr>)
      | None \<Rightarrow> (Inr (), s))"

text \<open>Lines 341-363.\<close>

definition deactivate_client :: "deactivate_result js" where
  "deactivate_client s =
     (case client s of
        None \<Rightarrow>
          js_then (appendLine ''[INFO] No client to stop'') (js_return ReturnsUndefined) s
      | Some c \<Rightarrow>
          js_then (appendLine ''[INFO] Stopping L language server...'')
            (js_catch
               (js_then client_stop
                  (\<lambda>s1. (Inr ReturnsThenable, s1\<lparr>deactivateStop := True\<rparr>)))
               (\<lambda>e. js_then
                      (appendLine (''[ERROR] Error while stopping L language server: ''
                                    @ error_str e))
                      (js_return ReturnsThenable))) s)"

definition deactivate :: "deactivate_result js" where
  "deactivate s = js_then deactivate_timer deactivate_client (s\<lparr>isDisposing := True\<rparr>)"

text \<open>The two functions passed to \<open>then\<close> (lines 352-357).\<close>

definition deactivate_stop_settled :: "js_error option \<Rightarrow> unit js" where
  "deactivate_stop_settled r =
     (case r of
        None \<Rightarrow> appendLine ''[INFO] L language server stopped successfully''
      | Some reason \<Rightarrow>
          appendLine (''[ERROR] Failed to stop L language server: '' @ error_str reason))"

subsection \<open>activate (lines 78-320)\<close>

text \<open>
  Up to the \<open>await\<close> of \<open>client.start()\<close>: the output channel and the status bar item are
  created, the first line is logged (\<open>activation_log\<close>), the command is located, the
  client is constructed with it, the subscribers and the command are registered, and
  \<open>start()\<close> is called.
\<close>

definition activation_log :: "string list" where
  "activation_log = [''[INFO] L Language extension is now active!'']"

definition activate :: "host \<Rightarrow> ext \<Rightarrow> ext" where
  "activate h s =
     (let located = locateServer h activation_log;
          s1 = s\<lparr>outputChannel := Some (snd located @ [''[INFO] Starting language client...'']),
                 channelClosed := False,
                 statusBarItem := Some
                   \<lparr>sb_text = ''$(sync~spin) L Language Server'',
                    sb_tooltip = ''L Language Server is starting...'',
                    sb_color = None, sb_shown = True\<rparr>,
                 client := Some
                   \<lparr>lc_state = Stopped, lc_command = fst located,
                    lc_maxProblems = cfg_maxProblems h, lc_calls = []\<rparr>\<rparr>
      in (snd (client_start s1))\<lparr>activateStart := True\<rparr>)"

text \<open>Lines 307-319: the \<open>start()\<close> of \<open>activate\<close> has settled.\<close>

definition activate_start_settled :: "js_error option \<Rightarrow> unit js" where
  "activate_start_settled r =
     (case r of
        None \<Rightarrow> appendLine ''[INFO] L Language Server started successfully''
      | Some e \<Rightarrow>
          js_then (appendLine (''[ERROR] Failed to start L Language Server: '' @ error_str e))
         (js_then (appendLine (''[ERROR] Error stack: '' @ err_stack e))
         (js_then (showErrorMessage (''Failed to start L Language Server: '' @ error_str e))
            (updateStatusBar Stopped))))"

subsection \<open>What the host and the client do: events\<close>

text \<open>
  The subscriber of lines 495-510, called with the new state for the activation that
  waits at \<open>AwaitReady\<close>. An error thrown by a subscriber is caught by the emitter.
\<close>

definition ready_listener :: "State \<Rightarrow> nat \<Rightarrow> ext \<Rightarrow> ext" where
  "ready_listener new i s =
     (if isDisposing s then s\<lparr>restarts := place i Returned (restarts s)\<rparr>
      else case new of
        Running \<Rightarrow>
          (case appendLine ''[INFO] L Language Server restarted successfully'' s of
             (Inr _, s1) \<Rightarrow> s1\<lparr>restarts := place i Returned (restarts s1)\<rparr>
           | (Inl e, s1) \<Rightarrow> s1)
      | Stopped \<Rightarrow>
          snd (appendLine ''[ERROR] L Language Server failed to restart''
                 (s\<lparr>restarts := place i Returned (restarts s)\<rparr>))
      | Starting \<Rightarrow> s)"

definition waiting_at :: "restart_pc \<Rightarrow> ext \<Rightarrow> nat list" where
  "waiting_at pc s = filter (\<lambda>i. restarts s ! i = pc) [0 ..< length (restarts s)]"

text \<open>
  The client changes its state and fires \<open>onDidChangeState\<close>: the subscriber of
  \<open>activate\<close> runs, then the subscribers of the waiting activations; the subscriber of
  lines 460-473 resolves its promise when the extension is disposing or the new state is
  \<open>Running\<close> or \<open>Stopped\<close>, and the activations whose promise was resolved go on after
  the subscribers have run.
\<close>

definition state_changed :: "State \<Rightarrow> ext \<Rightarrow> ext" where
  "state_changed new s =
     (case client s of
        None \<Rightarrow> s
      | Some c \<Rightarrow>
          (let s1 = s\<lparr>client := Some (c\<lparr>lc_state := new\<rparr>)\<rparr>;
               s2 = snd (stateChangeListener \<lparr>oldState = lc_state c, newState = new\<rparr> s1);
               woken = (if isDisposing s2 \<or> new = Running \<or> new = Stopped
                        then waiting_at AwaitStateChange s2 else []);
               s3 = fold (ready_listener new) (waiting_at AwaitReady s2) s2
           in fold (\<lambda>i s4. snd (run_stretch i after_wait s4)) woken s3))"

text \<open>
  The events: the restart command is invoked; the configuration changes; the clock
  reaches a time; the host runs the callback of a timer that is armed and due (the
  timer is no longer armed when its callback runs); the
  client changes state; a \<open>stop()\<close> or \<open>start()\<close> that an activation of
  \<open>restartServer\<close>, \<open>activate\<close> or \<open>deactivate\<close> waits for settles (\<open>None\<close>: fulfilled;
  \<open>Some e\<close>: rejected with \<open>e\<close>); the host calls \<open>deactivate\<close>; the client reports a
  fault or that the connection closed.
\<close>

datatype event =
    Command
  | ConfigChange ConfigurationChangeEvent
  | Tick nat
  | TimerFire nat
  | StateChange State
  | StopSettled nat "js_error option"
  | StartSettled nat "js_error option"
  | ActivateStartSettled "js_error option"
  | Deactivate
  | DeactivateStopSettled "js_error option"
  | Fault js_error string nat
  | Closed

definition pc_of :: "ext \<Rightarrow> nat \<Rightarrow> restart_pc" where
  "pc_of s i = (if i < length (restarts s) then restarts s ! i else Returned)"

fun step :: "event \<Rightarrow> ext \<Rightarrow> ext" where
  "step Command s = snd (restartServer s)"
| "step (ConfigChange ev) s = snd (handleConfigurationChange ev s)"
| "step (Tick t) s = s\<lparr>now := max (now s) t\<rparr>"
| "step (TimerFire h) s =
     (case map_of (timers s) h of
        Some due \<Rightarrow>
          if due \<le> now s then debounce_callback (clearTimeout h s) else s
      | None \<Rightarrow> s)"
| "step (StateChange new) s = state_changed new s"
| "step (StopSettled i r) s =
     (if pc_of s i = AwaitStop then snd (run_stretch i (resume_stop r) s)
      else if pc_of s i = AwaitStopAfterWait then snd (run_stretch i (resume_stop_after_wait r) s)
      else s)"
| "step (StartSettled i r) s =
     (if pc_of s i = AwaitStart then snd (run_stretch i (resume_start r) s) else s)"
| "step (ActivateStartSettled r) s =
     (if activateStart s then snd (activate_start_settled r (s\<lparr>activateStart := False\<rparr>))
      else s)"
| "step Deactivate s = snd (deactivate s)"
| "step (DeactivateStopSettled r) s =
     (if deactivateStop s then snd (deactivate_stop_settled r (s\<lparr>deactivateStop := False\<rparr>))
      else s)"
| "step (Fault e m n) s = snd (errorHandler_error e m n s)"
| "step Closed s = snd (errorHandler_closed s)"

definition run :: "event list \<Rightarrow> ext \<Rightarrow> ext" where
  "run evs s = fold step evs s"

text \<open>
  \<open>Deactivate\<close> is the call of the exported function alone. The extension host of the
  editor makes that call when it shuts the extension down, and in the same turn, as soon
  as \<open>deactivate\<close> has returned its thenable (or has thrown), it disposes what \<open>activate\<close>
  pushed to \<open>context.subscriptions\<close>: the output channel (line 84), the status bar item
  (line 91), the client (line 275), the two listeners (lines 281 and 285) and the
  command (line 288). From then on every method of the channel throws
  \<open>Channel has been closed\<close>, and the item is hidden. That the client, the listeners and
  the command are disposed means that fewer calls and events reach the module, and no
  new ones: the events below cover them.
\<close>

definition dispose_subscriptions :: "ext \<Rightarrow> ext" where
  "dispose_subscriptions s =
     s\<lparr>channelClosed := True,
       statusBarItem := map_option (\<lambda>item. item\<lparr>sb_shown := False\<rparr>) (statusBarItem s)\<rparr>"

definition host_deactivate :: "ext \<Rightarrow> ext" where
  "host_deactivate s = dispose_subscriptions (step Deactivate s)"

text \<open>The state reached by \<open>activate\<close> on a host and the events that follow it.\<close>

definition reached :: "host \<Rightarrow> event list \<Rightarrow> ext" where
  "reached h evs = run evs (activate h module_init)"

subsection \<open>Runs of events\<close>





text \<open>\<open>n\<close> faults in a row, the client passing the counts 1 to \<open>n\<close>.\<close>

definition fault_run :: "js_error \<Rightarrow> string \<Rightarrow> nat \<Rightarrow> ext \<Rightarrow> ext" where
  "fault_run e m n s = fold (\<lambda>k. step (Fault e m k)) [1 ..< Suc n] s"

text \<open>Where a call of \<open>restartServer\<close> that got past its guards first waits.\<close>

definition first_await :: "State \<Rightarrow> restart_pc" where
  "first_await st = (case st of Running \<Rightarrow> AwaitStop | Starting \<Rightarrow> AwaitStateChange | Stopped \<Rightarrow> AwaitStart)"

subsection \<open>Concrete hosts, states and events\<close>

text \<open>
  The release build exists and the check of the debug build throws; \<open>SERVER_PATH\<close> is
  set to the empty string and the release build exists; a server path is configured.
\<close>

definition release_host :: host where
  "release_host = posix_host\<lparr>fs_existsSync :=
      (\<lambda>p. if p = ''/ext/dist/../../target/debug/l-language-server'' then Inl (JsError ''Error'' ''EACCES'' [])
            else Inr (p = ''/ext/dist/../../target/release/l-language-server''))\<rparr>"

definition empty_env_host :: host where
  "empty_env_host = posix_host\<lparr>env_SERVER_PATH := Some [],
      fs_existsSync := (\<lambda>p. Inr (p = ''/ext/dist/../../target/release/l-language-server''))\<rparr>"

definition host_a :: host where
  "host_a = posix_host\<lparr>cfg_serverPath := ''/opt/a/l-language-server''\<rparr>"

definition host_b :: host where
  "host_b = posix_host\<lparr>cfg_serverPath := ''/opt/b/l-language-server''\<rparr>"

text \<open>
  After \<open>activate\<close> on the host where nothing is configured: the client has reported
  \<open>Starting\<close> and \<open>Running\<close> and the \<open>start()\<close> of \<open>activate\<close> is fulfilled.
\<close>

definition running_state :: ext where
  "running_state =
     reached posix_host [StateChange Starting, StateChange Running, ActivateStartSettled None]"

text \<open>
  Events after which a call of \<open>restartServer\<close> waits for a state change: activation
  has finished, the connection closes, the client (whose handler answered \<open>Restart\<close>)
  stops and starts the server again, and while it is \<open>Starting\<close> the restart command is
  invoked.
\<close>

definition restart_waiting_trace :: "event list" where
  "restart_waiting_trace =
     [StateChange Starting, StateChange Running, ActivateStartSettled None,
      Closed, StateChange Stopped, StateChange Starting, Command]"


text \<open>
  An error of the connection; a change of the server path; three such changes within a
  second of each other; and the events of a restart after such a change: the client
  starts and runs, the setting changes, the timer fires a second later, the client stops
  and the \<open>stop()\<close> of the restart is fulfilled.
\<close>

definition io_error :: js_error where
  "io_error = JsError ''Error'' ''write EPIPE'' []"

definition path_change :: ConfigurationChangeEvent where
  "path_change = changed_keys [''l-language-server.serverPath'']"


definition config_restart_trace :: "event list" where
  "config_restart_trace =
     [StateChange Starting, StateChange Running, ActivateStartSettled None,
      ConfigChange path_change, Tick 1000, TimerFire 0,
      StateChange Stopped, StopSettled 0 None]"

subsection \<open>What a statement leaves untouched\<close>

text \<open>
  \<open>calls_grow\<close>: the client is the same object with the same command, and the calls
  made on it are the old ones followed by stops and by starts of that command.
  \<open>quiet\<close> relates the state before and after a statement that touches neither the timers
  nor the disposing flag, keeps what is defined defined, closes no channel, and leaves
  the status bar alone when the extension is disposing. \<open>evolves\<close> is what every event
  keeps.
\<close>

definition calls_grow :: "LanguageClient \<Rightarrow> LanguageClient \<Rightarrow> bool" where
  "calls_grow c c' =
     (lc_command c' = lc_command c \<and>
      (\<exists>xs. lc_calls c' = lc_calls c @ xs \<and> set xs \<subseteq> {CallStop, CallStart (lc_command c)}))"

definition quiet :: "ext \<Rightarrow> ext \<Rightarrow> bool" where
  "quiet s s' =
     (timers s' = timers s \<and> configChangeTimer s' = configChangeTimer s
      \<and> timerSeq s' = timerSeq s \<and> now s' = now s \<and> isDisposing s' = isDisposing s
      \<and> channelClosed s' = channelClosed s
      \<and> (outputChannel s \<noteq> None \<longrightarrow> outputChannel s' \<noteq> None)
      \<and> (statusBarItem s \<noteq> None \<longrightarrow> statusBarItem s' \<noteq> None)
      \<and> (isDisposing s \<longrightarrow> statusBarItem s' = statusBarItem s)
      \<and> rel_option calls_grow (client s) (client s'))"

definition quiet_stmt :: "'a js \<Rightarrow> bool" where
  "quiet_stmt m = (\<forall>s. quiet s (snd (m s)))"

definition evolves :: "ext \<Rightarrow> ext \<Rightarrow> bool" where
  "evolves s s' =
     ((outputChannel s \<noteq> None \<longrightarrow> outputChannel s' \<noteq> None)
      \<and> (statusBarItem s \<noteq> None \<longrightarrow> statusBarItem s' \<noteq> None)
      \<and> (isDisposing s \<longrightarrow> isDisposing s' \<and> statusBarItem s' = statusBarItem s)
      \<and> channelClosed s' = channelClosed s
      \<and> rel_option calls_grow (client s) (client s'))"

text \<open>
  The status bar item together with the calls of \<open>restartServer\<close> in flight, and a
  statement that leaves a given part of the state as it was.
\<close>

definition bar_view :: "ext \<Rightarrow> StatusBarItem option \<times> restart_pc list" where
  "bar_view s = (statusBarItem s, restarts s)"

definition keeps :: "(ext \<Rightarrow> 'v) \<Rightarrow> 'a js \<Rightarrow> bool" where
  "keeps v m = (\<forall>s. v (snd (m s)) = v s)"

text \<open>
  The \<open>start()\<close> calls the extension has made on the client, and a statement that throws
  and leaves the state as it was.
\<close>

definition start_calls :: "ext \<Rightarrow> client_call list" where
  "start_calls s =
     (case client s of None \<Rightarrow> [] | Some c \<Rightarrow> filter (\<lambda>k. k \<noteq> CallStop) (lc_calls c))"

definition fails :: "'a js \<Rightarrow> ext \<Rightarrow> bool" where
  "fails m s = (\<exists>e. m s = (Inl e, s))"

text \<open>
  The armed timers are exactly the one whose handle \<open>configChangeTimer\<close> holds, if any.
\<close>

definition timer_inv :: "ext \<Rightarrow> bool" where
  "timer_inv s =
     ((configChangeTimer s = None \<longrightarrow> timers s = [])
      \<and> (\<forall>h. configChangeTimer s = Some h \<longrightarrow> (\<exists>due. timers s = [(h, due)])))"


section \<open>Properties\<close>

subsection \<open>The locator\<close>

lemma js_trim_Nil: "js_trim [] = []"
  by (simp add: js_trim_def)

lemma findServer_none:
  "\<forall>q\<in>set ps. ex q \<noteq> Inr True \<Longrightarrow> fst (findServer ex ps log) = None"
  by (induction ps arbitrary: log) (auto simp: Let_def split: sum.splits bool.splits)

lemma findServer_first:
  "\<forall>q\<in>set pre. ex q \<noteq> Inr True \<Longrightarrow> ex p = Inr True
   \<Longrightarrow> fst (findServer ex (pre @ p # post) log) = Some p"
  by (induction pre arbitrary: log) (auto simp: Let_def split: sum.splits bool.splits)

lemma chooseServer_config:
  "js_trim (cfg_serverPath h) \<noteq> [] \<Longrightarrow> fst (chooseServer h log) = Some (cfg_serverPath h)"
  by (cases "cfg_serverPath h = []") (simp_all add: chooseServer_def Let_def js_trim_Nil)

lemma chooseServer_env:
  "js_trim (cfg_serverPath h) = [] \<Longrightarrow> env_SERVER_PATH h = Some e \<Longrightarrow> e \<noteq> []
   \<Longrightarrow> fst (chooseServer h log) = Some e"
  by (simp add: chooseServer_def)

lemma chooseServer_candidate:
  "js_trim (cfg_serverPath h) = [] \<Longrightarrow> \<not> truthy (env_SERVER_PATH h)
   \<Longrightarrow> possiblePaths h = pre @ p # post
   \<Longrightarrow> \<forall>q\<in>set pre. fs_existsSync h q \<noteq> Inr True \<Longrightarrow> fs_existsSync h p = Inr True
   \<Longrightarrow> or_else (fst (chooseServer h log)) ''l-language-server'' = or_else (Some p) ''l-language-server''"
  by (simp add: chooseServer_def Let_def findServer_first)

lemma chooseServer_fallback:
  "js_trim (cfg_serverPath h) = [] \<Longrightarrow> \<not> truthy (env_SERVER_PATH h)
   \<Longrightarrow> \<forall>q\<in>set (possiblePaths h). fs_existsSync h q \<noteq> Inr True
   \<Longrightarrow> fst (chooseServer h log) = Some ''l-language-server''"
  by (simp add: chooseServer_def Let_def findServer_none)

lemma js_trim_ex: "js_trim '' /opt/l/server '' = ''/opt/l/server''" "js_trim ''  '' = []"
  by (simp_all add: js_trim_def is_js_space_def)

subsection \<open>Statements that leave timers, flags and the client's command alone\<close>

lemma calls_grow_refl: "calls_grow c c"
  by (simp add: calls_grow_def)

lemma calls_grow_trans: "calls_grow a b \<Longrightarrow> calls_grow b c \<Longrightarrow> calls_grow a c"
  by (auto simp: calls_grow_def)

lemma quiet_refl: "quiet s s"
  by (simp add: quiet_def option.rel_refl calls_grow_refl)

lemma rel_option_calls_grow_trans:
  "rel_option calls_grow a b \<Longrightarrow> rel_option calls_grow b c \<Longrightarrow> rel_option calls_grow a c"
  by (cases a; cases b; cases c) (auto intro: calls_grow_trans)

lemma quiet_trans: "quiet a b \<Longrightarrow> quiet b c \<Longrightarrow> quiet a c"
  unfolding quiet_def by (auto intro: rel_option_calls_grow_trans)

lemma quiet_stmtD: "quiet_stmt m \<Longrightarrow> quiet s (snd (m s))"
  by (simp add: quiet_stmt_def)

lemma quiet_return: "quiet_stmt (js_return a)"
  by (simp add: quiet_stmt_def js_return_def quiet_refl)

lemma quiet_throw: "quiet_stmt (js_throw e)"
  by (simp add: quiet_stmt_def js_throw_def quiet_refl)

lemma quiet_bind: "quiet_stmt m \<Longrightarrow> (\<And>a. quiet_stmt (k a)) \<Longrightarrow> quiet_stmt (js_bind m k)"
  unfolding quiet_stmt_def
proof (intro allI)
  fix s
  assume m: "\<forall>s. quiet s (snd (m s))" and k: "\<And>a. \<forall>s. quiet s (snd (k a s))"
  obtain r s1 where ms: "m s = (r, s1)" by (cases "m s")
  from m have "quiet s (snd (m s))" by blast
  with ms have q1: "quiet s s1" by simp
  show "quiet s (snd (js_bind m k s))"
  proof (cases r)
    case (Inl e) with ms q1 show ?thesis by (simp add: js_bind_def)
  next
    case (Inr a)
    from k have "quiet s1 (snd (k a s1))" by blast
    with q1 have "quiet s (snd (k a s1))" by (rule quiet_trans)
    with ms Inr show ?thesis by (simp add: js_bind_def)
  qed
qed

lemma quiet_then: "quiet_stmt m \<Longrightarrow> quiet_stmt k \<Longrightarrow> quiet_stmt (js_then m k)"
  by (simp add: js_then_def quiet_bind)

lemma quiet_catch: "quiet_stmt m \<Longrightarrow> (\<And>e. quiet_stmt (h e)) \<Longrightarrow> quiet_stmt (js_catch m h)"
  unfolding quiet_stmt_def
proof (intro allI)
  fix s
  assume m: "\<forall>s. quiet s (snd (m s))" and k: "\<And>a. \<forall>s. quiet s (snd (h a s))"
  obtain r s1 where ms: "m s = (r, s1)" by (cases "m s")
  from m have "quiet s (snd (m s))" by blast
  with ms have q1: "quiet s s1" by simp
  show "quiet s (snd (js_catch m h s))"
  proof (cases r)
    case (Inr e) with ms q1 show ?thesis by (simp add: js_catch_def)
  next
    case (Inl a)
    from k have "quiet s1 (snd (h a s1))" by blast
    with q1 have "quiet s (snd (h a s1))" by (rule quiet_trans)
    with ms Inl show ?thesis by (simp add: js_catch_def)
  qed
qed

lemma quiet_appendLine: "quiet_stmt (appendLine x)"
  by (auto simp: quiet_stmt_def appendLine_def quiet_def option.rel_refl calls_grow_refl
      split: option.splits)

lemma quiet_showErrorMessage: "quiet_stmt (showErrorMessage x)"
  by (auto simp: quiet_stmt_def showErrorMessage_def quiet_def option.rel_refl calls_grow_refl)

lemma quiet_client_stop: "quiet_stmt client_stop"
  by (auto simp: quiet_stmt_def client_stop_def quiet_def calls_grow_def split: option.splits)

lemma quiet_client_start: "quiet_stmt client_start"
  by (auto simp: quiet_stmt_def client_start_def quiet_def calls_grow_def split: option.splits)

lemma quiet_updateStatusBar: "quiet_stmt (updateStatusBar st)"
  by (auto simp: quiet_stmt_def updateStatusBar_def quiet_def option.rel_refl calls_grow_refl
      split: option.splits)

lemma quiet_if: "quiet_stmt a \<Longrightarrow> quiet_stmt b \<Longrightarrow> quiet_stmt (if c then a else b)"
  by simp

lemmas quiet_intros = quiet_return quiet_throw quiet_bind quiet_then quiet_catch
  quiet_appendLine quiet_showErrorMessage quiet_client_stop quiet_client_start
  quiet_updateStatusBar

lemma quiet_start_new_instance: "quiet_stmt start_new_instance"
  unfolding start_new_instance_def by (intro quiet_intros)

lemma quiet_restart_begin: "quiet_stmt (restart_begin st)"
  unfolding restart_begin_def by (cases st) (auto intro!: quiet_intros quiet_start_new_instance)

lemma quiet_resume_stop: "quiet_stmt (resume_stop r)"
  unfolding resume_stop_def by (cases r) (auto intro!: quiet_intros quiet_start_new_instance)

lemma quiet_wait_catch: "quiet_stmt (wait_catch e)"
  unfolding wait_catch_def by (intro quiet_intros)

lemma quiet_check_after_wait: "quiet_stmt check_after_wait"
proof -
  have a: "quiet_stmt (js_then client_stop (js_return True))"
    by (intro quiet_intros)
  have b: "quiet_stmt (js_then (appendLine
                           ''[WARN] Server failed to start, proceeding with restart attempt'')
                          (js_return False))"
    by (intro quiet_intros)
  show ?thesis
    unfolding quiet_stmt_def check_after_wait_def
    using quiet_stmtD [OF a] quiet_stmtD [OF b]
    by (auto simp: quiet_refl split: option.splits)
qed

lemma quiet_after_wait: "quiet_stmt after_wait"
  unfolding after_wait_def
  by (intro quiet_bind quiet_catch quiet_check_after_wait quiet_then quiet_wait_catch
        quiet_return quiet_if quiet_start_new_instance)

lemma quiet_resume_stop_after_wait: "quiet_stmt (resume_stop_after_wait r)"
  unfolding resume_stop_after_wait_def
  by (cases r) (auto intro!: quiet_intros quiet_start_new_instance quiet_wait_catch)

lemma quiet_resume_start: "quiet_stmt (resume_start r)"
  unfolding resume_start_def by (cases r) (auto intro!: quiet_intros)

lemma quiet_restart_catch: "quiet_stmt (restart_catch e)"
  unfolding restart_catch_def by (intro quiet_intros)

lemma quiet_restarts_update: "quiet s s' \<Longrightarrow> quiet s (s'\<lparr>restarts := r\<rparr>)"
  by (simp add: quiet_def)

lemma quiet_run_stretch:
  assumes "quiet_stmt m"
  shows "quiet s (snd (run_stretch i m s))"
proof -
  obtain r s1 where ms: "m s = (r, s1)" by (cases "m s")
  from assms have "quiet s (snd (m s))" by (rule quiet_stmtD)
  with ms have q1: "quiet s s1" by simp
  show ?thesis
  proof (cases r)
    case (Inr v)
    with ms q1 show ?thesis
      by (cases v) (auto simp: run_stretch_def intro: quiet_restarts_update)
  next
    case (Inl e)
    obtain r2 s2 where cs: "restart_catch e s1 = (r2, s2)" by (cases "restart_catch e s1")
    have "quiet s1 (snd (restart_catch e s1))" by (rule quiet_stmtD [OF quiet_restart_catch])
    with cs have "quiet s1 s2" by simp
    with q1 have "quiet s s2" by (rule quiet_trans)
    with ms Inl cs show ?thesis
      by (cases r2) (auto simp: run_stretch_def intro: quiet_restarts_update)
  qed
qed

lemma quiet_restartServer: "quiet s (snd (restartServer s))"
proof -
  have a: "quiet s (snd (as_promise (appendLine x s)))" for x
    using quiet_stmtD [OF quiet_appendLine, of s x]
    by (cases "appendLine x s") (auto simp: as_promise_def split: sum.splits)
  show ?thesis
  proof (cases "isDisposing s \<or> client s = None")
    case True
    then show ?thesis by (auto simp: restartServer_def a)
  next
    case False
    then obtain c where c: "client s = Some c" and nd: "\<not> isDisposing s" by auto
    let ?line = "''[INFO] Restarting L Language Server (current state: '' @ State_name (lc_state c) @ '')''"
    obtain r s1 where al: "appendLine ?line s = (r, s1)" by (cases "appendLine ?line s")
    have "quiet s (snd (appendLine ?line s))" by (rule quiet_stmtD [OF quiet_appendLine])
    with al have q1: "quiet s s1" by simp
    show ?thesis
    proof (cases r)
      case (Inl e)
      with c nd al q1 show ?thesis by (simp add: restartServer_def)
    next
      case (Inr u)
      have "quiet s1 (snd (run_stretch (length (restarts s1)) (restart_begin (lc_state c)) s1))"
        by (rule quiet_run_stretch [OF quiet_restart_begin])
      with q1 have "quiet s (snd (run_stretch (length (restarts s1)) (restart_begin (lc_state c)) s1))"
        by (rule quiet_trans)
      with c nd al Inr show ?thesis by (simp add: restartServer_def)
    qed
  qed
qed

lemma quiet_fold:
  assumes "\<And>x s. quiet s (f x s)"
  shows "quiet s (fold f xs s)"
proof (induction xs arbitrary: s)
  case Nil show ?case by (simp add: quiet_refl)
next
  case (Cons x xs)
  have "quiet s (f x s)" by (rule assms)
  moreover have "quiet (f x s) (fold f xs (f x s))" by (rule Cons.IH)
  ultimately have "quiet s (fold f xs (f x s))" by (rule quiet_trans)
  then show ?case by simp
qed

lemma quiet_ready_listener: "quiet s (ready_listener new i s)"
proof -
  have a: "quiet s (snd (appendLine x s))" for x s
    by (rule quiet_stmtD [OF quiet_appendLine])
  have b: "quiet s (s\<lparr>restarts := r\<rparr>)" for r
    by (rule quiet_restarts_update [OF quiet_refl])
  show ?thesis
  proof (cases "isDisposing s")
    case True then show ?thesis by (simp add: ready_listener_def b)
  next
    case False
    show ?thesis
    proof (cases new)
      case Starting with False show ?thesis by (simp add: ready_listener_def quiet_refl)
    next
      case Stopped
      have "quiet (s\<lparr>restarts := place i Returned (restarts s)\<rparr>)
              (snd (appendLine ''[ERROR] L Language Server failed to restart''
                 (s\<lparr>restarts := place i Returned (restarts s)\<rparr>)))" by (rule a)
      with b have "quiet s (snd (appendLine ''[ERROR] L Language Server failed to restart''
                 (s\<lparr>restarts := place i Returned (restarts s)\<rparr>)))" by (rule quiet_trans)
      with False Stopped show ?thesis by (simp add: ready_listener_def)
    next
      case Running
      obtain r s1 where al: "appendLine ''[INFO] L Language Server restarted successfully'' s = (r, s1)"
        by (cases "appendLine ''[INFO] L Language Server restarted successfully'' s")
      have "quiet s (snd (appendLine ''[INFO] L Language Server restarted successfully'' s))" by (rule a)
      with al have "quiet s s1" by simp
      with False Running al show ?thesis
        by (cases r) (auto simp: ready_listener_def intro: quiet_restarts_update)
    qed
  qed
qed

lemma quiet_state_changed: "quiet s (state_changed new s)"
proof (cases "client s")
  case None then show ?thesis by (simp add: state_changed_def quiet_refl)
next
  case (Some c)
  let ?s1 = "s\<lparr>client := Some (c\<lparr>lc_state := new\<rparr>)\<rparr>"
  let ?s2 = "snd (stateChangeListener \<lparr>oldState = lc_state c, newState = new\<rparr> ?s1)"
  have q1: "quiet s ?s1" using Some by (simp add: quiet_def calls_grow_def)
  have q2: "quiet ?s1 ?s2"
    unfolding stateChangeListener_def by (rule quiet_stmtD [OF quiet_updateStatusBar])
  have q3: "quiet ?s2 (fold (ready_listener new) xs ?s2)" for xs
    by (rule quiet_fold) (rule quiet_ready_listener)
  have q4: "quiet s3 (fold (\<lambda>i s4. snd (run_stretch i after_wait s4)) ys s3)" for ys s3
    by (rule quiet_fold) (rule quiet_run_stretch [OF quiet_after_wait])
  from q1 q2 have "quiet s ?s2" by (rule quiet_trans)
  then have "quiet s (fold (ready_listener new) xs ?s2)" for xs
    using q3 by (rule quiet_trans)
  then have "quiet s (fold (\<lambda>i s4. snd (run_stretch i after_wait s4)) ys (fold (ready_listener new) xs ?s2))" for xs ys
    using q4 by (rule quiet_trans)
  with Some show ?thesis by (simp add: state_changed_def Let_def)
qed

lemma quiet_errorHandler_error: "quiet_stmt (errorHandler_error e m n)"
  unfolding errorHandler_error_def by (intro quiet_then quiet_if quiet_intros)

lemma quiet_errorHandler_closed: "quiet_stmt errorHandler_closed"
  unfolding errorHandler_closed_def by (intro quiet_intros)

lemma quiet_activate_start_settled: "quiet_stmt (activate_start_settled r)"
  unfolding activate_start_settled_def by (cases r; simp; intro quiet_intros)

lemma quiet_deactivate_stop_settled: "quiet_stmt (deactivate_stop_settled r)"
  unfolding deactivate_stop_settled_def by (cases r; simp; intro quiet_intros)

subsection \<open>What every event keeps\<close>

lemma evolves_refl: "evolves s s"
  by (simp add: evolves_def option.rel_refl calls_grow_refl)

lemma evolves_trans: "evolves a b \<Longrightarrow> evolves b c \<Longrightarrow> evolves a c"
  unfolding evolves_def by (auto intro: rel_option_calls_grow_trans)

lemma quiet_evolves: "quiet s s' \<Longrightarrow> evolves s s'"
  by (simp add: quiet_def evolves_def)

lemma appendLine_Some:
  "outputChannel s = Some l \<Longrightarrow> \<not> channelClosed s
   \<Longrightarrow> appendLine x s = (Inr (), s\<lparr>outputChannel := Some (l @ [x])\<rparr>)"
  by (simp add: appendLine_def)

lemma appendLine_closed:
  "outputChannel s = Some l \<Longrightarrow> channelClosed s \<Longrightarrow> appendLine x s = (Inl channel_closed, s)"
  by (simp add: appendLine_def)

lemma appendLine_None:
  "outputChannel s = None \<Longrightarrow> appendLine x s = (Inl (undefined_read ''appendLine''), s)"
  by (simp add: appendLine_def)

lemma handleConfigurationChange_skip:
  "\<not> (ev ''l-language-server'' \<and> \<not> ev ''l-language-server.trace.server'')
   \<Longrightarrow> quiet s (snd (handleConfigurationChange ev s))"
  using quiet_stmtD [OF quiet_appendLine, of s "''[INFO] Trace configuration changed, no restart needed''"]
  by (auto simp: handleConfigurationChange_def quiet_refl)

lemma handleConfigurationChange_arm:
  "ev ''l-language-server'' \<Longrightarrow> \<not> ev ''l-language-server.trace.server''
   \<Longrightarrow> outputChannel s = Some l \<Longrightarrow> \<not> channelClosed s
   \<Longrightarrow> handleConfigurationChange ev s =
       (Inr (),
        s\<lparr>outputChannel := Some (l @ [''[INFO] Configuration changed, scheduling server restart'']),
          timers := (case configChangeTimer s of
                       Some h \<Rightarrow> filter (\<lambda>t. fst t \<noteq> h) (timers s)
                     | None \<Rightarrow> timers s) @ [(timerSeq s, now s + 1000)],
          timerSeq := Suc (timerSeq s),
          configChangeTimer := Some (timerSeq s)\<rparr>)"
  by (cases "configChangeTimer s")
     (simp_all add: handleConfigurationChange_def js_then_def js_bind_def appendLine_Some
       clearTimeout_def setTimeout_def Let_def)

lemma handleConfigurationChange_undefined:
  "ev ''l-language-server'' \<Longrightarrow> \<not> ev ''l-language-server.trace.server''
   \<Longrightarrow> outputChannel s = None
   \<Longrightarrow> snd (handleConfigurationChange ev s) = s"
  by (simp add: handleConfigurationChange_def js_then_def js_bind_def appendLine_None)

lemma handleConfigurationChange_closed:
  "ev ''l-language-server'' \<Longrightarrow> \<not> ev ''l-language-server.trace.server''
   \<Longrightarrow> channelClosed s
   \<Longrightarrow> snd (handleConfigurationChange ev s) = s"
  by (simp add: handleConfigurationChange_def js_then_def js_bind_def appendLine_def
      split: option.splits)

lemma evolves_handleConfigurationChange: "evolves s (snd (handleConfigurationChange ev s))"
proof (cases "ev ''l-language-server'' \<and> \<not> ev ''l-language-server.trace.server''")
  case False
  then show ?thesis by (intro quiet_evolves handleConfigurationChange_skip)
next
  case True
  show ?thesis
  proof (cases "outputChannel s")
    case None
    with True show ?thesis by (simp add: handleConfigurationChange_undefined evolves_refl)
  next
    case (Some l)
    with True show ?thesis
      by (cases "channelClosed s")
         (simp_all add: handleConfigurationChange_arm handleConfigurationChange_closed
           evolves_def option.rel_refl calls_grow_refl)
  qed
qed

lemma quiet_flag: "quiet_stmt (\<lambda>s1. (Inr ReturnsThenable, s1\<lparr>deactivateStop := True\<rparr>))"
  by (simp add: quiet_stmt_def quiet_def option.rel_refl calls_grow_refl)

lemma quiet_deactivate_client: "quiet_stmt deactivate_client"
proof -
  have a: "quiet_stmt (js_then (appendLine ''[INFO] No client to stop'') (js_return ReturnsUndefined))"
    by (intro quiet_intros)
  have b: "quiet_stmt (js_then (appendLine ''[INFO] Stopping L language server...'')
                  (js_catch
                     (js_then client_stop
                        (\<lambda>s1. (Inr ReturnsThenable, s1\<lparr>deactivateStop := True\<rparr>)))
                     (\<lambda>e. js_then
                            (appendLine (''[ERROR] Error while stopping L language server: ''
                                          @ error_str e))
                            (js_return ReturnsThenable))))"
    by (intro quiet_then quiet_catch quiet_flag quiet_intros)
  show ?thesis
    unfolding quiet_stmt_def deactivate_client_def
    using quiet_stmtD [OF a] quiet_stmtD [OF b] by (auto split: option.splits)
qed

lemma deactivate_timer_frame:
  "isDisposing (snd (deactivate_timer s)) = isDisposing s
   \<and> statusBarItem (snd (deactivate_timer s)) = statusBarItem s
   \<and> client (snd (deactivate_timer s)) = client s
   \<and> (outputChannel s \<noteq> None \<longrightarrow> outputChannel (snd (deactivate_timer s)) \<noteq> None)
   \<and> channelClosed (snd (deactivate_timer s)) = channelClosed s
   \<and> restarts (snd (deactivate_timer s)) = restarts s"
  by (auto simp: deactivate_timer_def appendLine_def clearTimeout_def split: option.splits)

lemma evolves_deactivate_timer: "evolves s (snd (deactivate_timer s))"
  using deactivate_timer_frame [of s]
  by (simp add: evolves_def option.rel_refl calls_grow_refl)

lemma js_then_snd:
  "snd (js_then m k s) = (case fst (m s) of Inl e \<Rightarrow> snd (m s) | Inr u \<Rightarrow> snd (k (snd (m s))))"
  by (cases "m s") (auto simp: js_then_def js_bind_def split: sum.splits)

lemma evolves_deactivate: "evolves s (snd (deactivate s))"
proof -
  let ?s0 = "s\<lparr>isDisposing := True\<rparr>"
  let ?s1 = "snd (deactivate_timer ?s0)"
  have e0: "evolves s ?s0" by (simp add: evolves_def option.rel_refl calls_grow_refl)
  have e1: "evolves ?s0 ?s1" by (rule evolves_deactivate_timer)
  have e2: "evolves ?s1 (snd (deactivate_client ?s1))"
    by (rule quiet_evolves [OF quiet_stmtD [OF quiet_deactivate_client]])
  from e0 e1 have e01: "evolves s ?s1" by (rule evolves_trans)
  from e01 e2 have e02: "evolves s (snd (deactivate_client ?s1))" by (rule evolves_trans)
  show ?thesis
    unfolding deactivate_def js_then_snd using e01 e02 by (simp split: sum.splits)
qed

lemma isDisposing_deactivate: "isDisposing (snd (deactivate s))"
proof -
  let ?s0 = "s\<lparr>isDisposing := True\<rparr>"
  let ?s1 = "snd (deactivate_timer ?s0)"
  have d1: "isDisposing ?s1" using deactivate_timer_frame [of ?s0] by simp
  have "quiet ?s1 (snd (deactivate_client ?s1))" by (rule quiet_stmtD [OF quiet_deactivate_client])
  with d1 have d2: "isDisposing (snd (deactivate_client ?s1))" by (simp add: quiet_def)
  show ?thesis
    unfolding deactivate_def js_then_snd using d1 d2 by (simp split: sum.splits)
qed

lemma evolves_debounce_callback: "evolves s (debounce_callback (clearTimeout h s))"
proof -
  have "quiet (clearTimeout h s) (snd (restartServer (clearTimeout h s)))"
    by (rule quiet_restartServer)
  then show ?thesis
    by (simp add: debounce_callback_def quiet_def evolves_def clearTimeout_def)
qed

lemma evolves_step: "evolves s (step e s)"
proof (cases e)
  case Command
  then show ?thesis by (simp add: quiet_evolves quiet_restartServer)
next
  case (ConfigChange ev)
  then show ?thesis by (simp add: evolves_handleConfigurationChange)
next
  case (Tick t)
  then show ?thesis by (simp add: evolves_def option.rel_refl calls_grow_refl)
next
  case (TimerFire h)
  then show ?thesis by (simp add: evolves_refl evolves_debounce_callback split: option.splits)
next
  case (StateChange new)
  then show ?thesis by (simp add: quiet_evolves quiet_state_changed)
next
  case (StopSettled i r)
  then show ?thesis
    by (simp add: evolves_refl quiet_evolves quiet_run_stretch quiet_resume_stop
        quiet_resume_stop_after_wait)
next
  case (StartSettled i r)
  then show ?thesis by (simp add: evolves_refl quiet_evolves quiet_run_stretch quiet_resume_start)
next
  case (ActivateStartSettled r)
  have "quiet (s\<lparr>activateStart := False\<rparr>) (snd (activate_start_settled r (s\<lparr>activateStart := False\<rparr>)))"
    by (rule quiet_stmtD [OF quiet_activate_start_settled])
  then have "evolves s (snd (activate_start_settled r (s\<lparr>activateStart := False\<rparr>)))"
    by (simp add: quiet_def evolves_def)
  with ActivateStartSettled show ?thesis by (simp add: evolves_refl)
next
  case Deactivate
  then show ?thesis by (simp add: evolves_deactivate)
next
  case (DeactivateStopSettled r)
  have "quiet (s\<lparr>deactivateStop := False\<rparr>) (snd (deactivate_stop_settled r (s\<lparr>deactivateStop := False\<rparr>)))"
    by (rule quiet_stmtD [OF quiet_deactivate_stop_settled])
  then have "evolves s (snd (deactivate_stop_settled r (s\<lparr>deactivateStop := False\<rparr>)))"
    by (simp add: quiet_def evolves_def)
  with DeactivateStopSettled show ?thesis by (simp add: evolves_refl)
next
  case (Fault e m n)
  then show ?thesis by (simp add: quiet_evolves quiet_stmtD [OF quiet_errorHandler_error])
next
  case Closed
  then show ?thesis by (simp add: quiet_evolves quiet_stmtD [OF quiet_errorHandler_closed])
qed

lemma evolves_run: "evolves s (run evs s)"
proof (induction evs arbitrary: s)
  case Nil show ?case by (simp add: run_def evolves_refl)
next
  case (Cons e evs)
  have "evolves s (step e s)" by (rule evolves_step)
  moreover have "evolves (step e s) (run evs (step e s))" by (rule Cons.IH)
  ultimately have "evolves s (run evs (step e s))" by (rule evolves_trans)
  then show ?case by (simp add: run_def)
qed

subsection \<open>The timer invariant\<close>

lemma timer_inv_quiet: "quiet s s' \<Longrightarrow> timer_inv s \<Longrightarrow> timer_inv s'"
  by (simp add: quiet_def timer_inv_def)

lemma timer_inv_handleConfigurationChange:
  assumes "timer_inv s"
  shows "timer_inv (snd (handleConfigurationChange ev s))"
proof (cases "ev ''l-language-server'' \<and> \<not> ev ''l-language-server.trace.server''")
  case False
  then show ?thesis using assms by (intro timer_inv_quiet [OF handleConfigurationChange_skip])
next
  case True
  show ?thesis
  proof (cases "outputChannel s")
    case None
    with True assms show ?thesis by (simp add: handleConfigurationChange_undefined)
  next
    case (Some l)
    show ?thesis
    proof (cases "channelClosed s")
      case True
      with \<open>ev ''l-language-server'' \<and> \<not> ev ''l-language-server.trace.server''\<close> assms
      show ?thesis by (simp add: handleConfigurationChange_closed)
    next
      case False
      with \<open>ev ''l-language-server'' \<and> \<not> ev ''l-language-server.trace.server''\<close> Some assms
      show ?thesis
        by (auto simp: handleConfigurationChange_arm timer_inv_def split: option.splits)
    qed
  qed
qed

lemma timer_inv_deactivate_timer:
  "timer_inv s \<Longrightarrow> timer_inv (snd (deactivate_timer s))"
  by (auto simp: timer_inv_def deactivate_timer_def appendLine_def clearTimeout_def
      split: option.splits)

lemma timer_inv_deactivate:
  assumes "timer_inv s"
  shows "timer_inv (snd (deactivate s))"
proof -
  let ?s0 = "s\<lparr>isDisposing := True\<rparr>"
  let ?s1 = "snd (deactivate_timer ?s0)"
  from assms have "timer_inv ?s0" by (simp add: timer_inv_def)
  then have t1: "timer_inv ?s1" by (rule timer_inv_deactivate_timer)
  have "quiet ?s1 (snd (deactivate_client ?s1))" by (rule quiet_stmtD [OF quiet_deactivate_client])
  then have t2: "timer_inv (snd (deactivate_client ?s1))" using t1 by (rule timer_inv_quiet)
  show ?thesis
    unfolding deactivate_def js_then_snd using t1 t2 by (simp split: sum.splits)
qed

lemma timer_inv_fire:
  assumes "timer_inv s" and "map_of (timers s) h = Some due"
  shows "timer_inv (debounce_callback (clearTimeout h s))"
    and "timers (debounce_callback (clearTimeout h s)) = []"
proof -
  from assms have t: "timers s = [(h, due)]"
    by (auto simp: timer_inv_def split: option.splits if_splits)
  have "quiet (clearTimeout h s) (snd (restartServer (clearTimeout h s)))"
    by (rule quiet_restartServer)
  then have "timers (snd (restartServer (clearTimeout h s))) = timers (clearTimeout h s)"
    by (simp add: quiet_def)
  with t show "timers (debounce_callback (clearTimeout h s)) = []"
    by (simp add: debounce_callback_def clearTimeout_def)
  then show "timer_inv (debounce_callback (clearTimeout h s))"
    by (simp add: timer_inv_def debounce_callback_def)
qed

lemma timer_inv_flag:
  "timer_inv (s\<lparr>activateStart := b\<rparr>) = timer_inv s"
  "timer_inv (s\<lparr>deactivateStop := b\<rparr>) = timer_inv s"
  "timer_inv (s\<lparr>now := n\<rparr>) = timer_inv s"
  by (simp_all add: timer_inv_def)

lemma timer_inv_step:
  assumes inv: "timer_inv s"
  shows "timer_inv (step e s)"
proof (cases e)
  case Command
  have "timer_inv (snd (restartServer s))"
    by (rule timer_inv_quiet [OF quiet_restartServer inv])
  with Command show ?thesis by simp
next
  case (ConfigChange ev)
  with inv show ?thesis by (simp add: timer_inv_handleConfigurationChange)
next
  case (Tick t)
  with inv show ?thesis by (simp add: timer_inv_flag)
next
  case (TimerFire h)
  show ?thesis
  proof (cases "map_of (timers s) h")
    case None
    with TimerFire inv show ?thesis by simp
  next
    case (Some due)
    have "timer_inv (debounce_callback (clearTimeout h s))"
      by (rule timer_inv_fire(1) [OF inv Some])
    with TimerFire Some inv show ?thesis by simp
  qed
next
  case (StateChange new)
  have "timer_inv (state_changed new s)"
    by (rule timer_inv_quiet [OF quiet_state_changed inv])
  with StateChange show ?thesis by simp
next
  case (StopSettled i r)
  have "timer_inv (snd (run_stretch i (resume_stop r) s))"
    by (rule timer_inv_quiet [OF quiet_run_stretch [OF quiet_resume_stop] inv])
  moreover have "timer_inv (snd (run_stretch i (resume_stop_after_wait r) s))"
    by (rule timer_inv_quiet [OF quiet_run_stretch [OF quiet_resume_stop_after_wait] inv])
  ultimately show ?thesis using StopSettled inv by simp
next
  case (StartSettled i r)
  have "timer_inv (snd (run_stretch i (resume_start r) s))"
    by (rule timer_inv_quiet [OF quiet_run_stretch [OF quiet_resume_start] inv])
  with StartSettled inv show ?thesis by simp
next
  case (ActivateStartSettled r)
  have "quiet (s\<lparr>activateStart := False\<rparr>) (snd (activate_start_settled r (s\<lparr>activateStart := False\<rparr>)))"
    by (rule quiet_stmtD [OF quiet_activate_start_settled])
  moreover from inv have "timer_inv (s\<lparr>activateStart := False\<rparr>)" by (simp add: timer_inv_flag)
  ultimately have "timer_inv (snd (activate_start_settled r (s\<lparr>activateStart := False\<rparr>)))"
    by (rule timer_inv_quiet)
  with ActivateStartSettled inv show ?thesis by simp
next
  case Deactivate
  with inv show ?thesis by (simp add: timer_inv_deactivate)
next
  case (DeactivateStopSettled r)
  have "quiet (s\<lparr>deactivateStop := False\<rparr>) (snd (deactivate_stop_settled r (s\<lparr>deactivateStop := False\<rparr>)))"
    by (rule quiet_stmtD [OF quiet_deactivate_stop_settled])
  moreover from inv have "timer_inv (s\<lparr>deactivateStop := False\<rparr>)" by (simp add: timer_inv_flag)
  ultimately have "timer_inv (snd (deactivate_stop_settled r (s\<lparr>deactivateStop := False\<rparr>)))"
    by (rule timer_inv_quiet)
  with DeactivateStopSettled inv show ?thesis by simp
next
  case (Fault e m n)
  have "timer_inv (snd (errorHandler_error e m n s))"
    by (rule timer_inv_quiet [OF quiet_stmtD [OF quiet_errorHandler_error] inv])
  with Fault show ?thesis by simp
next
  case Closed
  have "timer_inv (snd (errorHandler_closed s))"
    by (rule timer_inv_quiet [OF quiet_stmtD [OF quiet_errorHandler_closed] inv])
  with Closed show ?thesis by simp
qed

lemma timer_inv_run: "timer_inv s \<Longrightarrow> timer_inv (run evs s)"
  unfolding run_def by (induction evs arbitrary: s) (simp_all add: timer_inv_step)

lemma activate_fields:
  "outputChannel (activate h s) \<noteq> None"
  "statusBarItem (activate h s) \<noteq> None"
  "client (activate h s) =
     Some \<lparr>lc_state = Stopped,
           lc_command = fst (locateServer h activation_log),
           lc_maxProblems = cfg_maxProblems h,
           lc_calls = [CallStart (fst (locateServer h activation_log))]\<rparr>"
  "timers (activate h s) = timers s"
  "configChangeTimer (activate h s) = configChangeTimer s"
  "isDisposing (activate h s) = isDisposing s"
  "restarts (activate h s) = restarts s"
  "now (activate h s) = now s"
  "\<not> channelClosed (activate h s)"
  by (simp_all add: activate_def Let_def client_start_def)

lemma timer_inv_activate: "timer_inv (activate h module_init)"
  by (simp add: timer_inv_def activate_fields module_init_def)

lemma reachable_timer_inv: "timer_inv (reached h evs)"
  unfolding reached_def by (rule timer_inv_run [OF timer_inv_activate])


lemma reachable_channel: "outputChannel (reached h evs) \<noteq> None"
  using evolves_run [of "activate h module_init" evs]
  by (simp add: evolves_def activate_fields reached_def)

lemma reachable_open: "\<not> channelClosed (reached h evs)"
  using evolves_run [of "activate h module_init" evs]
  by (simp add: evolves_def activate_fields reached_def)

lemma reachable_client: "client (reached h evs) \<noteq> None"
  using evolves_run [of "activate h module_init" evs]
  by (cases "client (run evs (activate h module_init))")
     (simp_all add: evolves_def activate_fields reached_def)

lemma restartServer_begins:
  assumes "outputChannel s = Some l" and "\<not> channelClosed s"
    and "client s = Some c" and "\<not> isDisposing s"
  shows "fst (restartServer s) = Pending"
    and "restarts (snd (restartServer s)) = restarts s @ [first_await (lc_state c)]"
  using assms
  by (cases "lc_state c";
      simp add: restartServer_def appendLine_Some run_stretch_def restart_begin_def
        start_new_instance_def js_then_def js_bind_def js_return_def client_stop_def
        client_start_def place_def first_await_def)+

lemma restartServer_skips:
  assumes "isDisposing s \<or> client s = None"
  shows "restarts (snd (restartServer s)) = restarts s"
    and "client (snd (restartServer s)) = client s"
    and "statusBarItem (snd (restartServer s)) = statusBarItem s"
  using assms
  by (auto simp: restartServer_def appendLine_def as_promise_def split: option.splits)

subsection \<open>Bursts of configuration changes\<close>










lemma restartServer_restarts:
  assumes "outputChannel s \<noteq> None" and op: "\<not> channelClosed s"
  shows "restarts (snd (restartServer s)) =
           (case client s of
              None \<Rightarrow> restarts s
            | Some c \<Rightarrow>
                if isDisposing s then restarts s
                else restarts s @ [first_await (lc_state c)])"
proof (cases "isDisposing s \<or> client s = None")
  case True
  then show ?thesis by (auto simp: restartServer_skips(1) split: option.splits)
next
  case False
  then obtain c where c: "client s = Some c" and nd: "\<not> isDisposing s" by auto
  from assms obtain l where l: "outputChannel s = Some l" by auto
  show ?thesis using restartServer_begins(2) [OF l op c nd] c nd by simp
qed

subsection \<open>Who writes the status bar and the list of restarts\<close>

lemma keepsD: "keeps v m \<Longrightarrow> v (snd (m s)) = v s"
  by (simp add: keeps_def)

lemma keeps_barD:
  assumes "keeps bar_view m"
  shows "statusBarItem (snd (m s)) = statusBarItem s" and "restarts (snd (m s)) = restarts s"
  using keepsD [OF assms, of s] by (simp_all add: bar_view_def)

lemma keeps_bar_restarts: "keeps bar_view m \<Longrightarrow> keeps restarts m"
  by (simp add: keeps_def bar_view_def)

lemma keeps_return: "keeps v (js_return a)"
  by (simp add: keeps_def js_return_def)

lemma keeps_throw: "keeps v (js_throw e)"
  by (simp add: keeps_def js_throw_def)

lemma keeps_bind: "keeps v m \<Longrightarrow> (\<And>a. keeps v (k a)) \<Longrightarrow> keeps v (js_bind m k)"
  unfolding keeps_def
proof (intro allI)
  fix s
  assume m: "\<forall>s. v (snd (m s)) = v s" and k: "\<And>a. \<forall>s. v (snd (k a s)) = v s"
  obtain r s1 where ms: "m s = (r, s1)" by (cases "m s")
  from m have "v (snd (m s)) = v s" by blast
  with ms have q1: "v s1 = v s" by simp
  show "v (snd (js_bind m k s)) = v s"
  proof (cases r)
    case (Inl e) with ms q1 show ?thesis by (simp add: js_bind_def)
  next
    case (Inr a)
    from k have "v (snd (k a s1)) = v s1" by blast
    with ms Inr q1 show ?thesis by (simp add: js_bind_def)
  qed
qed

lemma keeps_then: "keeps v m \<Longrightarrow> keeps v k \<Longrightarrow> keeps v (js_then m k)"
  by (simp add: js_then_def keeps_bind)

lemma keeps_catch: "keeps v m \<Longrightarrow> (\<And>e. keeps v (h e)) \<Longrightarrow> keeps v (js_catch m h)"
  unfolding keeps_def
proof (intro allI)
  fix s
  assume m: "\<forall>s. v (snd (m s)) = v s" and k: "\<And>a. \<forall>s. v (snd (h a s)) = v s"
  obtain r s1 where ms: "m s = (r, s1)" by (cases "m s")
  from m have "v (snd (m s)) = v s" by blast
  with ms have q1: "v s1 = v s" by simp
  show "v (snd (js_catch m h s)) = v s"
  proof (cases r)
    case (Inr e) with ms q1 show ?thesis by (simp add: js_catch_def)
  next
    case (Inl a)
    from k have "v (snd (h a s1)) = v s1" by blast
    with ms Inl q1 show ?thesis by (simp add: js_catch_def)
  qed
qed

lemma keeps_if: "keeps v a \<Longrightarrow> keeps v b \<Longrightarrow> keeps v (if c then a else b)"
  by simp

lemma keeps_appendLine: "keeps bar_view (appendLine x)"
  by (auto simp: keeps_def bar_view_def appendLine_def split: option.splits)

lemma keeps_client_stop: "keeps bar_view client_stop"
  by (auto simp: keeps_def bar_view_def client_stop_def split: option.splits)

lemma keeps_client_start: "keeps bar_view client_start"
  by (auto simp: keeps_def bar_view_def client_start_def split: option.splits)

lemma keeps_showErrorMessage: "keeps bar_view (showErrorMessage x)"
  by (simp add: keeps_def bar_view_def showErrorMessage_def)

lemma keeps_restarts_updateStatusBar: "keeps restarts (updateStatusBar st)"
  by (auto simp: keeps_def updateStatusBar_def split: option.splits)

lemmas keeps_intros = keeps_return keeps_throw keeps_bind keeps_then keeps_catch keeps_if
  keeps_appendLine keeps_client_stop keeps_client_start keeps_showErrorMessage
  keeps_appendLine [THEN keeps_bar_restarts] keeps_client_stop [THEN keeps_bar_restarts]
  keeps_client_start [THEN keeps_bar_restarts] keeps_showErrorMessage [THEN keeps_bar_restarts]
  keeps_restarts_updateStatusBar

lemma keeps_start_new_instance: "keeps bar_view start_new_instance"
  unfolding start_new_instance_def by (intro keeps_intros)

lemma keeps_check_after_wait: "keeps bar_view check_after_wait"
proof -
  have a: "keeps bar_view (js_then client_stop (js_return True))"
    by (intro keeps_intros)
  have b: "keeps bar_view (js_then (appendLine
                           ''[WARN] Server failed to start, proceeding with restart attempt'')
                          (js_return False))"
    by (intro keeps_intros)
  show ?thesis
    unfolding keeps_def check_after_wait_def
    using keepsD [OF a] keepsD [OF b]
    by (auto split: option.splits)
qed

lemma keeps_after_wait: "keeps bar_view after_wait"
  unfolding after_wait_def wait_catch_def
  by (intro keeps_intros keeps_check_after_wait keeps_start_new_instance)

lemma keeps_restart_catch: "keeps bar_view (restart_catch e)"
  unfolding restart_catch_def by (intro keeps_intros)

lemma keeps_resume_stop: "keeps bar_view (resume_stop r)"
  unfolding resume_stop_def
  by (cases r; simp; intro keeps_intros keeps_start_new_instance)

lemma keeps_resume_stop_after_wait: "keeps bar_view (resume_stop_after_wait r)"
  unfolding resume_stop_after_wait_def wait_catch_def
  by (cases r; simp; intro keeps_intros keeps_start_new_instance)

lemma keeps_resume_start: "keeps bar_view (resume_start r)"
  unfolding resume_start_def by (cases r; simp; intro keeps_intros)

lemma keeps_restarts_errorHandler_error: "keeps restarts (errorHandler_error e m n)"
  unfolding errorHandler_error_def by (intro keeps_intros)

lemma keeps_restarts_errorHandler_closed: "keeps restarts errorHandler_closed"
  unfolding errorHandler_closed_def by (intro keeps_intros)

lemma keeps_restarts_activate_start_settled: "keeps restarts (activate_start_settled r)"
  unfolding activate_start_settled_def by (cases r; simp; intro keeps_intros)

lemma keeps_restarts_deactivate_stop_settled: "keeps restarts (deactivate_stop_settled r)"
  unfolding deactivate_stop_settled_def by (cases r; simp; intro keeps_intros)

lemma keeps_restarts_deactivate_client: "keeps restarts deactivate_client"
proof -
  have a: "keeps restarts (js_then (appendLine ''[INFO] No client to stop'')
             (js_return ReturnsUndefined))"
    by (intro keeps_intros)
  have f: "keeps restarts (\<lambda>s1. (Inr ReturnsThenable, s1\<lparr>deactivateStop := True\<rparr>))"
    by (simp add: keeps_def)
  have b: "keeps restarts (js_then (appendLine ''[INFO] Stopping L language server...'')
                  (js_catch
                     (js_then client_stop
                        (\<lambda>s1. (Inr ReturnsThenable, s1\<lparr>deactivateStop := True\<rparr>)))
                     (\<lambda>e. js_then
                            (appendLine (''[ERROR] Error while stopping L language server: ''
                                          @ error_str e))
                            (js_return ReturnsThenable))))"
    by (intro keeps_then keeps_catch f keeps_intros)
  show ?thesis
    unfolding keeps_def deactivate_client_def
    using keepsD [OF a] keepsD [OF b] by (auto split: option.splits)
qed

lemma length_place: "i < length ts \<Longrightarrow> length (place i pc ts) = length ts"
  by (simp add: place_def)

lemma run_stretch_bar:
  assumes "keeps bar_view m"
  shows "statusBarItem (snd (run_stretch i m s)) = statusBarItem s"
    and "\<exists>pc. restarts (snd (run_stretch i m s)) = place i pc (restarts s)"
proof -
  obtain r s1 where ms: "m s = (r, s1)" by (cases "m s")
  from keeps_barD [OF assms, of s] ms
  have q1: "statusBarItem s1 = statusBarItem s" "restarts s1 = restarts s" by simp_all
  have "statusBarItem (snd (run_stretch i m s)) = statusBarItem s
      \<and> (\<exists>pc. restarts (snd (run_stretch i m s)) = place i pc (restarts s))"
  proof (cases r)
    case (Inr v)
    with ms q1 show ?thesis by (cases v) (auto simp: run_stretch_def)
  next
    case (Inl e)
    obtain r2 s2 where cs: "restart_catch e s1 = (r2, s2)" by (cases "restart_catch e s1")
    from keeps_barD [OF keeps_restart_catch, of e s1] cs q1
    have "statusBarItem s2 = statusBarItem s" "restarts s2 = restarts s" by simp_all
    with ms Inl cs show ?thesis by (cases r2) (auto simp: run_stretch_def)
  qed
  then show "statusBarItem (snd (run_stretch i m s)) = statusBarItem s"
    and "\<exists>pc. restarts (snd (run_stretch i m s)) = place i pc (restarts s)"
    by simp_all
qed

lemma run_stretch_length:
  assumes "keeps bar_view m" and "i < length (restarts s)"
  shows "length (restarts (snd (run_stretch i m s))) = length (restarts s)"
  using run_stretch_bar(2) [OF assms(1), of i s] assms(2) by (auto simp: length_place)

lemma ready_listener_bar:
  "statusBarItem (ready_listener new i s) = statusBarItem s"
  "i < length (restarts s) \<Longrightarrow> length (restarts (ready_listener new i s)) = length (restarts s)"
proof -
  have a: "statusBarItem (snd (appendLine x t)) = statusBarItem t"
    "restarts (snd (appendLine x t)) = restarts t" for x t
    by (rule keeps_barD [OF keeps_appendLine])+
  obtain r s1 where al: "appendLine ''[INFO] L Language Server restarted successfully'' s = (r, s1)"
    by (cases "appendLine ''[INFO] L Language Server restarted successfully'' s")
  from a [of "''[INFO] L Language Server restarted successfully''" s] al
  have s1: "statusBarItem s1 = statusBarItem s" "restarts s1 = restarts s" by simp_all
  show "statusBarItem (ready_listener new i s) = statusBarItem s"
    using al s1 by (cases new; cases r) (simp_all add: ready_listener_def a)
  show "length (restarts (ready_listener new i s)) = length (restarts s)"
    if "i < length (restarts s)"
    using that al s1 by (cases new; cases r) (simp_all add: ready_listener_def a length_place)
qed

lemma fold_bar:
  assumes "\<And>x s. statusBarItem (f x s) = statusBarItem s"
  shows "statusBarItem (fold f xs s) = statusBarItem s"
  by (induction xs arbitrary: s) (simp_all add: assms)

lemma fold_length:
  assumes f: "\<And>x s. x < length (restarts s) \<Longrightarrow> length (restarts (f x s)) = length (restarts s)"
    and xs: "\<forall>x\<in>set xs. x < length (restarts s)"
  shows "length (restarts (fold f xs s)) = length (restarts s)"
  using xs
proof (induction xs arbitrary: s)
  case Nil show ?case by simp
next
  case (Cons x xs)
  from Cons.prems have x: "x < length (restarts s)" by simp
  have l: "length (restarts (f x s)) = length (restarts s)" by (rule f [OF x])
  with Cons.prems have "\<forall>y\<in>set xs. y < length (restarts (f x s))" by simp
  from Cons.IH [OF this] l show ?case by simp
qed

lemma waiting_at_bound: "\<forall>i\<in>set (waiting_at pc s). i < length (restarts s)"
  by (simp add: waiting_at_def)

lemma state_changed_bar:
  "statusBarItem (state_changed new s) =
     (if isDisposing s \<or> client s = None then statusBarItem s
      else map_option (status_for new) (statusBarItem s))"
  "length (restarts (state_changed new s)) = length (restarts s)"
proof -
  show "statusBarItem (state_changed new s) =
     (if isDisposing s \<or> client s = None then statusBarItem s
      else map_option (status_for new) (statusBarItem s))"
  proof (cases "client s")
    case None then show ?thesis by (simp add: state_changed_def)
  next
    case (Some c)
    let ?s1 = "s\<lparr>client := Some (c\<lparr>lc_state := new\<rparr>)\<rparr>"
    let ?s2 = "snd (stateChangeListener \<lparr>oldState = lc_state c, newState = new\<rparr> ?s1)"
    have b2: "statusBarItem ?s2 =
       (if isDisposing s then statusBarItem s else map_option (status_for new) (statusBarItem s))"
      by (simp add: stateChangeListener_def updateStatusBar_def split: option.splits)
    have b3: "statusBarItem (fold (ready_listener new) xs ?s2) = statusBarItem ?s2" for xs
      by (rule fold_bar) (rule ready_listener_bar(1))
    have b4: "statusBarItem (fold (\<lambda>i s4. snd (run_stretch i after_wait s4)) ys s3)
        = statusBarItem s3" for ys s3
      by (rule fold_bar) (rule run_stretch_bar(1) [OF keeps_after_wait])
    from Some b2 b3 b4 show ?thesis by (simp add: state_changed_def Let_def)
  qed
  show "length (restarts (state_changed new s)) = length (restarts s)"
  proof (cases "client s")
    case None then show ?thesis by (simp add: state_changed_def)
  next
    case (Some c)
    let ?s1 = "s\<lparr>client := Some (c\<lparr>lc_state := new\<rparr>)\<rparr>"
    let ?s2 = "snd (stateChangeListener \<lparr>oldState = lc_state c, newState = new\<rparr> ?s1)"
    let ?s3 = "fold (ready_listener new) (waiting_at AwaitReady ?s2) ?s2"
    have r2: "restarts ?s2 = restarts s"
      by (simp add: stateChangeListener_def updateStatusBar_def split: option.splits)
    have l3: "length (restarts ?s3) = length (restarts ?s2)"
      by (rule fold_length [OF ready_listener_bar(2) waiting_at_bound])
    have l4: "length (restarts (fold (\<lambda>i s4. snd (run_stretch i after_wait s4)) ys ?s3))
        = length (restarts ?s3)" if "\<forall>y\<in>set ys. y < length (restarts ?s3)" for ys
      by (rule fold_length [OF run_stretch_length [OF keeps_after_wait] that])
    have w: "\<forall>y\<in>set (waiting_at AwaitStateChange ?s2). y < length (restarts ?s3)"
      using waiting_at_bound [of AwaitStateChange ?s2] l3 by simp
    have "length (restarts (fold (\<lambda>i s4. snd (run_stretch i after_wait s4))
             (if isDisposing ?s2 \<or> new = Running \<or> new = Stopped
              then waiting_at AwaitStateChange ?s2 else []) ?s3)) = length (restarts ?s3)"
      using l4 [OF w] by simp
    with l3 r2 Some show ?thesis by (simp add: state_changed_def Let_def)
  qed
qed

lemma pc_of_bound: "pc_of s i \<noteq> Returned \<Longrightarrow> i < length (restarts s)"
  by (simp add: pc_of_def split: if_splits)

lemma deactivate_restarts: "restarts (snd (deactivate s)) = restarts s"
proof -
  let ?s0 = "s\<lparr>isDisposing := True\<rparr>"
  let ?s1 = "snd (deactivate_timer ?s0)"
  have t1: "restarts ?s1 = restarts s" using deactivate_timer_frame [of ?s0] by simp
  have "restarts (snd (deactivate_client ?s1)) = restarts ?s1"
    by (rule keepsD [OF keeps_restarts_deactivate_client])
  with t1 have t2: "restarts (snd (deactivate_client ?s1)) = restarts s" by simp
  show ?thesis using t1 t2 by (simp add: deactivate_def js_then_snd split: sum.splits)
qed

lemma disposing_step_length:
  assumes d: "isDisposing s"
  shows "length (restarts (step e s)) = length (restarts s)"
proof (cases e)
  case Command
  with d show ?thesis by (simp add: restartServer_skips(1))
next
  case (ConfigChange ev)
  have "restarts (snd (handleConfigurationChange ev s)) = restarts s"
    by (auto simp: handleConfigurationChange_def js_then_def js_bind_def appendLine_def
        clearTimeout_def setTimeout_def Let_def split: option.splits)
  with ConfigChange show ?thesis by simp
next
  case (Tick t)
  then show ?thesis by simp
next
  case (TimerFire h)
  have "restarts (snd (restartServer (clearTimeout h s))) = restarts (clearTimeout h s)"
    using d by (intro restartServer_skips(1)) (simp add: clearTimeout_def)
  with TimerFire show ?thesis
    by (simp add: debounce_callback_def clearTimeout_def split: option.splits)
next
  case (StateChange new)
  then show ?thesis by (simp add: state_changed_bar(2))
next
  case (StopSettled i r)
  show ?thesis
  proof (cases "pc_of s i = AwaitStop \<or> pc_of s i = AwaitStopAfterWait")
    case False
    with StopSettled show ?thesis by simp
  next
    case True
    then have i: "i < length (restarts s)" by (auto intro: pc_of_bound)
    from StopSettled True show ?thesis
      using run_stretch_length [OF keeps_resume_stop i]
        run_stretch_length [OF keeps_resume_stop_after_wait i] by auto
  qed
next
  case (StartSettled i r)
  show ?thesis
  proof (cases "pc_of s i = AwaitStart")
    case False
    with StartSettled show ?thesis by simp
  next
    case True
    then have i: "i < length (restarts s)" by (auto intro: pc_of_bound)
    from StartSettled True show ?thesis
      using run_stretch_length [OF keeps_resume_start i] by simp
  qed
next
  case (ActivateStartSettled r)
  have "restarts (snd (activate_start_settled r (s\<lparr>activateStart := False\<rparr>)))
      = restarts (s\<lparr>activateStart := False\<rparr>)"
    by (rule keepsD [OF keeps_restarts_activate_start_settled])
  with ActivateStartSettled show ?thesis by simp
next
  case Deactivate
  then show ?thesis by (simp add: deactivate_restarts)
next
  case (DeactivateStopSettled r)
  have "restarts (snd (deactivate_stop_settled r (s\<lparr>deactivateStop := False\<rparr>)))
      = restarts (s\<lparr>deactivateStop := False\<rparr>)"
    by (rule keepsD [OF keeps_restarts_deactivate_stop_settled])
  with DeactivateStopSettled show ?thesis by simp
next
  case (Fault e m n)
  have "restarts (snd (errorHandler_error e m n s)) = restarts s"
    by (rule keepsD [OF keeps_restarts_errorHandler_error])
  with Fault show ?thesis by simp
next
  case Closed
  have "restarts (snd (errorHandler_closed s)) = restarts s"
    by (rule keepsD [OF keeps_restarts_errorHandler_closed])
  with Closed show ?thesis by simp
qed

lemma disposing_run_length:
  "isDisposing s \<Longrightarrow> length (restarts (run evs s)) = length (restarts s)"
proof (induction evs arbitrary: s)
  case Nil show ?case by (simp add: run_def)
next
  case (Cons e evs)
  have "evolves s (step e s)" by (rule evolves_step)
  with Cons.prems have d: "isDisposing (step e s)" by (simp add: evolves_def)
  from Cons.IH [OF d] disposing_step_length [OF Cons.prems, of e]
  show ?case by (simp add: run_def)
qed

subsection \<open>Once the output channel is closed\<close>

lemma failsD: "fails m s \<Longrightarrow> snd (m s) = s"
  by (auto simp: fails_def)

lemma fails_appendLine: "channelClosed s \<Longrightarrow> fails (appendLine x) s"
  by (auto simp: fails_def appendLine_def split: option.splits)

lemma fails_throw: "fails (js_throw e) s"
  by (simp add: fails_def js_throw_def)

lemma fails_bind: "fails m s \<Longrightarrow> fails (js_bind m k) s"
  by (auto simp: fails_def js_bind_def)

lemma fails_then: "fails m s \<Longrightarrow> fails (js_then m k) s"
  by (simp add: js_then_def fails_bind)

lemma fails_catch: "fails m s \<Longrightarrow> (\<And>e. fails (h e) s) \<Longrightarrow> fails (js_catch m h) s"
  by (auto simp: fails_def js_catch_def)

lemma fails_start_new_instance: "channelClosed s \<Longrightarrow> fails start_new_instance s"
  unfolding start_new_instance_def by (intro fails_then fails_appendLine)

lemma fails_restart_begin: "channelClosed s \<Longrightarrow> fails (restart_begin st) s"
  unfolding restart_begin_def
  by (cases st) (simp_all add: fails_then fails_appendLine fails_start_new_instance)

lemma fails_resume_stop: "channelClosed s \<Longrightarrow> fails (resume_stop r) s"
  unfolding resume_stop_def
  by (cases r) (simp_all add: fails_then fails_appendLine fails_throw)

lemma fails_wait_catch: "channelClosed s \<Longrightarrow> fails (wait_catch e) s"
  unfolding wait_catch_def by (rule fails_appendLine)

lemma fails_restart_catch: "channelClosed s \<Longrightarrow> fails (restart_catch e) s"
  unfolding restart_catch_def by (intro fails_then fails_appendLine)

lemma fails_resume_stop_after_wait: "channelClosed s \<Longrightarrow> fails (resume_stop_after_wait r) s"
  unfolding resume_stop_after_wait_def
  by (cases r)
     (simp_all add: fails_then fails_catch fails_appendLine fails_throw fails_wait_catch)

lemma fails_activate_start_settled: "channelClosed s \<Longrightarrow> fails (activate_start_settled r) s"
  unfolding activate_start_settled_def
  by (cases r) (simp_all add: fails_then fails_appendLine)

lemma fails_deactivate_stop_settled: "channelClosed s \<Longrightarrow> fails (deactivate_stop_settled r) s"
  unfolding deactivate_stop_settled_def
  by (cases r) (simp_all add: fails_appendLine)

lemma fails_errorHandler_error: "channelClosed s \<Longrightarrow> fails (errorHandler_error e m n) s"
  unfolding errorHandler_error_def by (intro fails_then fails_appendLine)

lemma fails_errorHandler_closed: "channelClosed s \<Longrightarrow> fails errorHandler_closed s"
  unfolding errorHandler_closed_def by (intro fails_then fails_appendLine)

lemma fails_deactivate_client: "channelClosed s \<Longrightarrow> fails deactivate_client s"
  using fails_then [OF fails_appendLine, of s]
  by (auto simp: fails_def deactivate_client_def split: option.splits)

lemma start_calls_restarts [simp]: "start_calls (s\<lparr>restarts := r\<rparr>) = start_calls s"
  by (simp add: start_calls_def)

lemma run_stretch_fails:
  assumes "channelClosed s" and "fails m s"
  shows "snd (run_stretch i m s) = s\<lparr>restarts := place i Returned (restarts s)\<rparr>"
proof -
  from assms(2) obtain e where m: "m s = (Inl e, s)" by (auto simp: fails_def)
  from fails_restart_catch [OF assms(1), of e] obtain e2 where "restart_catch e s = (Inl e2, s)"
    by (auto simp: fails_def)
  with m show ?thesis by (simp add: run_stretch_def)
qed

lemma after_wait_closed:
  assumes cl: "channelClosed s"
  shows "fails after_wait s
     \<or> (\<exists>c. client s = Some c
          \<and> after_wait s = (Inr (Some AwaitStopAfterWait),
                            s\<lparr>client := Some (c\<lparr>lc_calls := lc_calls c @ [CallStop]\<rparr>)\<rparr>))"
proof (cases "client s")
  case None
  then have "fails check_after_wait s" by (simp add: fails_def check_after_wait_def)
  then have "fails (js_catch check_after_wait (\<lambda>e. js_then (wait_catch e) (js_return False))) s"
    by (rule fails_catch) (rule fails_then [OF fails_wait_catch [OF cl]])
  then show ?thesis unfolding after_wait_def by (intro disjI1 fails_bind)
next
  case (Some c)
  show ?thesis
  proof (cases "lc_state c = Running")
    case True
    with Some show ?thesis
      by (simp add: after_wait_def check_after_wait_def js_bind_def js_catch_def js_then_def
          js_return_def client_stop_def)
  next
    case False
    from fails_then [OF fails_appendLine [OF cl]]
    have "fails (js_then (appendLine
                  ''[WARN] Server failed to start, proceeding with restart attempt'')
                 (js_return False)) s" .
    with Some False have "fails check_after_wait s"
      by (simp add: fails_def check_after_wait_def)
    then have "fails (js_catch check_after_wait (\<lambda>e. js_then (wait_catch e) (js_return False))) s"
      by (rule fails_catch) (rule fails_then [OF fails_wait_catch [OF cl]])
    then show ?thesis unfolding after_wait_def by (intro disjI1 fails_bind)
  qed
qed

lemma run_after_wait_closed:
  assumes cl: "channelClosed s"
  shows "channelClosed (snd (run_stretch i after_wait s))
     \<and> start_calls (snd (run_stretch i after_wait s)) = start_calls s"
  using after_wait_closed [OF cl]
proof
  assume "fails after_wait s"
  from run_stretch_fails [OF cl this, of i] cl show ?thesis by simp
next
  assume "\<exists>c. client s = Some c
          \<and> after_wait s = (Inr (Some AwaitStopAfterWait),
                            s\<lparr>client := Some (c\<lparr>lc_calls := lc_calls c @ [CallStop]\<rparr>)\<rparr>)"
  with cl show ?thesis by (auto simp: run_stretch_def start_calls_def)
qed

lemma ready_listener_closed:
  assumes cl: "channelClosed s"
  shows "channelClosed (ready_listener new i s)
     \<and> start_calls (ready_listener new i s) = start_calls s"
  using cl
  by (cases new)
     (auto simp: ready_listener_def appendLine_def start_calls_def split: option.splits)

lemma fold_closed:
  assumes f: "\<And>x s. channelClosed s \<Longrightarrow>
      channelClosed (f x s) \<and> start_calls (f x s) = start_calls s"
  shows "channelClosed s \<Longrightarrow>
     channelClosed (fold f xs s) \<and> start_calls (fold f xs s) = start_calls s"
proof (induction xs arbitrary: s)
  case Nil then show ?case by simp
next
  case (Cons x xs)
  from f [OF Cons.prems, of x] have p: "channelClosed (f x s)"
    and e: "start_calls (f x s) = start_calls s" by simp_all
  from Cons.IH [OF p] e show ?case by simp
qed

lemma state_changed_closed:
  assumes cl: "channelClosed s"
  shows "start_calls (state_changed new s) = start_calls s"
proof (cases "client s")
  case None then show ?thesis by (simp add: state_changed_def)
next
  case (Some c)
  let ?s1 = "s\<lparr>client := Some (c\<lparr>lc_state := new\<rparr>)\<rparr>"
  let ?s2 = "snd (stateChangeListener \<lparr>oldState = lc_state c, newState = new\<rparr> ?s1)"
  let ?s3 = "fold (ready_listener new) (waiting_at AwaitReady ?s2) ?s2"
  have s2: "channelClosed ?s2" "start_calls ?s2 = start_calls s"
    using cl Some
    by (auto simp: stateChangeListener_def updateStatusBar_def start_calls_def
        split: option.splits)
  have s3: "channelClosed ?s3 \<and> start_calls ?s3 = start_calls ?s2"
    by (rule fold_closed [OF ready_listener_closed s2(1)])
  then have c3: "channelClosed ?s3" by simp
  have "start_calls (fold (\<lambda>i s4. snd (run_stretch i after_wait s4)) ys ?s3) = start_calls ?s3"
    for ys
    using fold_closed [where f = "\<lambda>i s4. snd (run_stretch i after_wait s4)",
        OF run_after_wait_closed c3, of ys] by simp
  with s3 s2 Some show ?thesis by (simp add: state_changed_def Let_def)
qed

lemma restartServer_closed: "channelClosed s \<Longrightarrow> snd (restartServer s) = s"
  by (auto simp: restartServer_def appendLine_def as_promise_def split: option.splits)

lemma deactivate_closed:
  assumes cl: "channelClosed s"
  shows "start_calls (snd (deactivate s)) = start_calls s"
proof -
  let ?s0 = "s\<lparr>isDisposing := True\<rparr>"
  let ?s1 = "snd (deactivate_timer ?s0)"
  have t1: "client ?s1 = client s" "channelClosed ?s1"
    using deactivate_timer_frame [of ?s0] cl by simp_all
  have "snd (deactivate_client ?s1) = ?s1"
    by (rule failsD [OF fails_deactivate_client [OF t1(2)]])
  with t1 show ?thesis
    by (simp add: deactivate_def js_then_snd start_calls_def split: sum.splits)
qed

lemma closed_step_start_calls:
  assumes cl: "channelClosed s"
  shows "start_calls (step e s) = start_calls s"
proof (cases e)
  case Command
  with cl show ?thesis by (simp add: restartServer_closed)
next
  case (ConfigChange ev)
  have "client (snd (handleConfigurationChange ev s)) = client s"
    by (auto simp: handleConfigurationChange_def js_then_def js_bind_def appendLine_def
        clearTimeout_def setTimeout_def Let_def split: option.splits)
  with ConfigChange show ?thesis by (simp add: start_calls_def)
next
  case (Tick t)
  then show ?thesis by (simp add: start_calls_def)
next
  case (TimerFire h)
  have "snd (restartServer (clearTimeout h s)) = clearTimeout h s"
    using cl by (intro restartServer_closed) (simp add: clearTimeout_def)
  with TimerFire show ?thesis
    by (simp add: debounce_callback_def clearTimeout_def start_calls_def split: option.splits)
next
  case (StateChange new)
  with cl show ?thesis by (simp add: state_changed_closed)
next
  case (StopSettled i r)
  with cl show ?thesis
    by (simp add: run_stretch_fails fails_resume_stop fails_resume_stop_after_wait)
next
  case (StartSettled i r)
  show ?thesis
  proof (cases r)
    case None
    with StartSettled show ?thesis
      by (simp add: resume_start_def run_stretch_def js_return_def)
  next
    case (Some e)
    with cl have "fails (resume_start r) s" by (simp add: resume_start_def fails_throw)
    with StartSettled cl show ?thesis by (simp add: run_stretch_fails)
  qed
next
  case (ActivateStartSettled r)
  have "channelClosed (s\<lparr>activateStart := False\<rparr>)" using cl by simp
  from failsD [OF fails_activate_start_settled [OF this], of r] ActivateStartSettled
  show ?thesis by (simp add: start_calls_def)
next
  case Deactivate
  with cl show ?thesis by (simp add: deactivate_closed)
next
  case (DeactivateStopSettled r)
  have "channelClosed (s\<lparr>deactivateStop := False\<rparr>)" using cl by simp
  from failsD [OF fails_deactivate_stop_settled [OF this], of r] DeactivateStopSettled
  show ?thesis by (simp add: start_calls_def)
next
  case (Fault e m n)
  with cl show ?thesis by (simp add: failsD [OF fails_errorHandler_error])
next
  case Closed
  with cl show ?thesis by (simp add: failsD [OF fails_errorHandler_closed])
qed

lemma closed_run_start_calls:
  "channelClosed s \<Longrightarrow> start_calls (run evs s) = start_calls s"
proof (induction evs arbitrary: s)
  case Nil show ?case by (simp add: run_def)
next
  case (Cons e evs)
  have "evolves s (step e s)" by (rule evolves_step)
  with Cons.prems have c: "channelClosed (step e s)" by (simp add: evolves_def)
  from Cons.IH [OF c] closed_step_start_calls [OF Cons.prems, of e]
  show ?case by (simp add: run_def)
qed

lemma keeps_start_calls_appendLine: "keeps start_calls (appendLine x)"
  by (auto simp: keeps_def start_calls_def appendLine_def split: option.splits)

lemma keeps_start_calls_client_stop: "keeps start_calls client_stop"
  by (auto simp: keeps_def start_calls_def client_stop_def split: option.splits)

lemma deactivate_start_calls: "start_calls (snd (deactivate s)) = start_calls s"
proof -
  let ?s0 = "s\<lparr>isDisposing := True\<rparr>"
  let ?s1 = "snd (deactivate_timer ?s0)"
  have t1: "client ?s1 = client s" using deactivate_timer_frame [of ?s0] by simp
  have a: "keeps start_calls (js_then (appendLine ''[INFO] No client to stop'')
             (js_return ReturnsUndefined))"
    by (intro keeps_then keeps_return keeps_start_calls_appendLine)
  have f: "keeps start_calls (\<lambda>s1. (Inr ReturnsThenable, s1\<lparr>deactivateStop := True\<rparr>))"
    by (simp add: keeps_def start_calls_def)
  have b: "keeps start_calls (js_then (appendLine ''[INFO] Stopping L language server...'')
                  (js_catch
                     (js_then client_stop
                        (\<lambda>s1. (Inr ReturnsThenable, s1\<lparr>deactivateStop := True\<rparr>)))
                     (\<lambda>e. js_then
                            (appendLine (''[ERROR] Error while stopping L language server: ''
                                          @ error_str e))
                            (js_return ReturnsThenable))))"
    by (intro keeps_then keeps_catch keeps_return f keeps_start_calls_appendLine
        keeps_start_calls_client_stop)
  have "keeps start_calls deactivate_client"
    unfolding keeps_def deactivate_client_def
    using keepsD [OF a] keepsD [OF b] by (auto split: option.splits)
  from keepsD [OF this, of ?s1] t1
  have t2: "start_calls (snd (deactivate_client ?s1)) = start_calls s"
    by (simp add: start_calls_def)
  from t1 have t3: "start_calls ?s1 = start_calls s" by (simp add: start_calls_def)
  show ?thesis
    using t2 t3 by (simp add: deactivate_def js_then_snd split: sum.splits)
qed

lemma deactivate_statusBarItem: "statusBarItem (snd (deactivate s)) = statusBarItem s"
proof -
  let ?s0 = "s\<lparr>isDisposing := True\<rparr>"
  let ?s1 = "snd (deactivate_timer ?s0)"
  have t1: "statusBarItem ?s1 = statusBarItem s" "isDisposing ?s1"
    using deactivate_timer_frame [of ?s0] by simp_all
  have "quiet ?s1 (snd (deactivate_client ?s1))"
    by (rule quiet_stmtD [OF quiet_deactivate_client])
  with t1 have t2: "statusBarItem (snd (deactivate_client ?s1)) = statusBarItem s"
    by (simp add: quiet_def)
  show ?thesis
    using t1 t2 by (simp add: deactivate_def js_then_snd split: sum.splits)
qed

lemma deactivate_timers:
  assumes "timer_inv s"
  shows "timers (snd (deactivate s)) = []" and "configChangeTimer (snd (deactivate s)) = None"
proof -
  let ?s0 = "s\<lparr>isDisposing := True\<rparr>"
  let ?s1 = "snd (deactivate_timer ?s0)"
  have t1: "timers ?s1 = [] \<and> configChangeTimer ?s1 = None"
    using assms
    by (auto simp: timer_inv_def deactivate_timer_def appendLine_def clearTimeout_def
        split: option.splits)
  have "quiet ?s1 (snd (deactivate_client ?s1))"
    by (rule quiet_stmtD [OF quiet_deactivate_client])
  with t1 have t2: "timers (snd (deactivate_client ?s1)) = []
      \<and> configChangeTimer (snd (deactivate_client ?s1)) = None"
    by (simp add: quiet_def)
  show "timers (snd (deactivate s)) = []" and "configChangeTimer (snd (deactivate s)) = None"
    using t1 t2 by (simp_all add: deactivate_def js_then_snd split: sum.splits)
qed

lemma host_deactivate_fields:
  "channelClosed (host_deactivate s)"
  "isDisposing (host_deactivate s)"
  "start_calls (host_deactivate s) = start_calls s"
  "restarts (host_deactivate s) = restarts s"
  "statusBarItem (host_deactivate s)
     = map_option (\<lambda>item. item\<lparr>sb_shown := False\<rparr>) (statusBarItem s)"
proof -
  have "start_calls (dispose_subscriptions t) = start_calls t" for t
    by (simp add: dispose_subscriptions_def start_calls_def)
  then show "start_calls (host_deactivate s) = start_calls s"
    by (simp add: host_deactivate_def deactivate_start_calls)
qed (simp_all add: host_deactivate_def dispose_subscriptions_def isDisposing_deactivate
      deactivate_restarts deactivate_statusBarItem)

subsection \<open>The error handler\<close>

lemma errorHandler_error_Some:
  assumes "outputChannel s = Some l" and "\<not> channelClosed s"
  shows "fst (errorHandler_error e m n s) = Inr Continue"
    and "errorMessages (snd (errorHandler_error e m n s)) =
           errorMessages s @ (if 5 \<le> n then [error_alert n] else [])"
    and "outputChannel (snd (errorHandler_error e m n s)) \<noteq> None"
    and "client (snd (errorHandler_error e m n s)) = client s"
    and "\<not> channelClosed (snd (errorHandler_error e m n s))"
  using assms
  by (simp_all add: errorHandler_error_def js_then_def js_bind_def js_return_def appendLine_Some
      showErrorMessage_def)

lemma errorHandler_closed_Some:
  "outputChannel s = Some l \<Longrightarrow> \<not> channelClosed s
   \<Longrightarrow> fst (errorHandler_closed s) = Inr Restart"
  by (simp add: errorHandler_closed_def js_then_def js_bind_def js_return_def appendLine_Some)

lemma fold_alerts:
  assumes f: "\<And>k s. P s \<Longrightarrow> P (f k s) \<and>
      errorMessages (f k s) = errorMessages s @ (if 5 \<le> k then [error_alert k] else [])"
  shows "P s \<Longrightarrow> errorMessages (fold f ks s) =
     errorMessages s @ map error_alert (filter (\<lambda>k. 5 \<le> k) ks)"
proof (induction ks arbitrary: s)
  case Nil then show ?case by simp
next
  case (Cons k ks)
  from f [OF Cons.prems, of k] have p: "P (f k s)"
    and e: "errorMessages (f k s) = errorMessages s @ (if 5 \<le> k then [error_alert k] else [])"
    by simp_all
  from Cons.IH [OF p] e show ?case by simp
qed

lemma fault_run_alerts:
  assumes "outputChannel s \<noteq> None \<and> \<not> channelClosed s"
  shows "errorMessages (fold (\<lambda>k. step (Fault e m k)) ks s) =
     errorMessages s @ map error_alert (filter (\<lambda>k. 5 \<le> k) ks)"
proof (rule fold_alerts [where P = "\<lambda>s. outputChannel s \<noteq> None \<and> \<not> channelClosed s"])
  fix k and s :: ext
  assume a: "outputChannel s \<noteq> None \<and> \<not> channelClosed s"
  then obtain l where l: "outputChannel s = Some l" by auto
  from a have op: "\<not> channelClosed s" by simp
  show "(outputChannel (step (Fault e m k) s) \<noteq> None \<and> \<not> channelClosed (step (Fault e m k) s)) \<and>
      errorMessages (step (Fault e m k) s) =
        errorMessages s @ (if 5 \<le> k then [error_alert k] else [])"
    using errorHandler_error_Some(2,3,5) [OF l op] by simp
qed (rule assms)

lemma filter_upt_ge: "filter (\<lambda>k. 5 \<le> k) [1 ..< Suc n] = [5 ..< Suc n]"
proof (induction n)
  case 0 show ?case by simp
next
  case (Suc n)
  show ?case
  proof (cases "5 \<le> Suc n")
    case True
    have "[1 ..< Suc (Suc n)] = [1 ..< Suc n] @ [Suc n]" by simp
    moreover have "[5 ..< Suc (Suc n)] = [5 ..< Suc n] @ [Suc n]" using True by simp
    ultimately show ?thesis using Suc True by (simp only: filter_append filter.simps if_True)
  next
    case False
    have "[1 ..< Suc (Suc n)] = [1 ..< Suc n] @ [Suc n]" by simp
    moreover have "[5 ..< Suc (Suc n)] = []" "[5 ..< Suc n] = []" using False by simp_all
    ultimately show ?thesis using Suc False
      by (simp only: filter_append filter.simps if_False append_Nil2)
  qed
qed

lemma calls_grow_inv:
  assumes "calls_grow c c'" and "lc_command c = cmd" and "set (lc_calls c) \<subseteq> {CallStop, CallStart cmd}"
  shows "lc_command c' = cmd \<and> set (lc_calls c') \<subseteq> {CallStop, CallStart cmd}"
  using assms by (auto simp: calls_grow_def)

section \<open>The claims\<close>

subsection \<open>C1: concurrent restart requests\<close>

text \<open>
  C1 as stated fails. The claim: of the restart requests issued while a restart is
  executing, exactly one restart runs and every additional request is dropped. The
  module has no restart-in-progress flag. With the client \<open>Running\<close>, a second command
  issued while the first restart waits for its \<open>stop()\<close> begins a second sequence and
  calls \<open>stop()\<close> again; so does the debounce timer firing during a restart.
\<close>

theorem restart_requests_overlap_counterexample:
  "restarts (run [Command] running_state) = [AwaitStop]
   \<and> restarts (run [Command, Command] running_state) = [AwaitStop, AwaitStop]
   \<and> map_option lc_calls (client (run [Command, Command] running_state))
       = Some [CallStart ''l-language-server'', CallStop, CallStop]
   \<and> restarts (run [Command, ConfigChange path_change, Tick 1000, TimerFire 0] running_state)
       = [AwaitStop, AwaitStop]"
  by code_simp

text \<open>
  C1, amended: \<open>restartServer\<close> has no guard but the disposing flag and the test that
  the client exists. In every state reached from \<open>activate\<close> the client exists, and every
  request that goes through \<open>restartServer\<close>, from the command or from the callback of
  the debounce timer, begins a restart sequence of its own unless the extension is
  disposing, whatever sequences are already waiting: the list of activations grows by
  one, at the first \<open>await\<close> for the client's state. A request made while disposing
  begins none.
\<close>

theorem restartServer_has_no_in_progress_guard:
  "\<exists>c. client (reached h evs) = Some c
       \<and> restarts (step Command (reached h evs)) =
           (if isDisposing (reached h evs) then restarts (reached h evs)
            else restarts (reached h evs) @ [first_await (lc_state c)])
       \<and> restarts (debounce_callback (reached h evs)) =
           (if isDisposing (reached h evs) then restarts (reached h evs)
            else restarts (reached h evs) @ [first_await (lc_state c)])"
proof -
  obtain c where c: "client (reached h evs) = Some c"
    using reachable_client [of h evs] by auto
  have "restarts (snd (restartServer (reached h evs))) =
      (if isDisposing (reached h evs) then restarts (reached h evs)
       else restarts (reached h evs) @ [first_await (lc_state c)])"
    using restartServer_restarts [OF reachable_channel reachable_open, of h evs] c by simp
  with c show ?thesis by (simp add: debounce_callback_def)
qed

theorem restartServer_has_no_in_progress_guard_witness:
  "restarts (run [Command] running_state) = [AwaitStop]
   \<and> restarts (run [Command, Command] running_state) = [AwaitStop, AwaitStop]"
proof -
  let ?evs = "[StateChange Starting, StateChange Running, ActivateStartSettled None, Command]"
  have a: "reached posix_host ?evs = run [Command] running_state"
    by (simp add: reached_def run_def running_state_def)
  have b: "map_option lc_state (client (run [Command] running_state)) = Some Running"
    by code_simp
  have c: "\<not> isDisposing (run [Command] running_state)" by code_simp
  have d: "restarts (run [Command] running_state) = [AwaitStop]" by code_simp
  have e: "run [Command, Command] running_state = step Command (run [Command] running_state)"
    by (simp add: run_def)
  from restartServer_has_no_in_progress_guard [of posix_host ?evs] b c d
  show ?thesis unfolding a e by (auto simp: first_await_def)
qed

subsection \<open>C2: the command a restart launches\<close>

text \<open>
  C2 as stated fails. The claim: the restart sequence resolves the server command again
  before \<open>start()\<close>, so a restart after a configuration change launches the newly
  resolved command. \<open>restartServer\<close> calls \<open>client.start()\<close> on the client constructed in
  \<open>activate\<close>, whose server options hold the command located then. Activated with the
  server path \<open>/opt/a/l-language-server\<close>, the restart that follows a change of the
  server path starts \<open>/opt/a/l-language-server\<close> again, whatever the locator would now
  return (here, for the host with the new path, \<open>/opt/b/l-language-server\<close>).
\<close>

theorem restart_keeps_activation_command_counterexample:
  "map_option lc_calls (client (reached host_a config_restart_trace))
     = Some [CallStart ''/opt/a/l-language-server'', CallStop,
             CallStart ''/opt/a/l-language-server'']
   \<and> fst (locateServer host_b activation_log) = ''/opt/b/l-language-server''"
  by code_simp

text \<open>
  C2, amended: the command is located once, in \<open>activate\<close>. After any events, the client
  is the one constructed in \<open>activate\<close>, its command is the command located at
  activation, and every \<open>start()\<close> the extension has called, in \<open>activate\<close> and in every
  restart, launches that command.
\<close>

theorem restart_starts_the_activation_command:
  "\<exists>c. client (reached h evs) = Some c
       \<and> lc_command c = fst (locateServer h activation_log)
       \<and> set (lc_calls c) \<subseteq> {CallStop, CallStart (fst (locateServer h activation_log))}"
proof -
  let ?cmd = "fst (locateServer h activation_log)"
  let ?c0 = "\<lparr>lc_state = Stopped, lc_command = ?cmd, lc_maxProblems = cfg_maxProblems h,
              lc_calls = [CallStart ?cmd]\<rparr>"
  have c0: "client (activate h module_init) = Some ?c0"
    by (simp add: activate_fields)
  have "evolves (activate h module_init) (reached h evs)"
    unfolding reached_def by (rule evolves_run)
  then have "rel_option calls_grow (Some ?c0) (client (reached h evs))"
    by (simp add: evolves_def c0)
  then obtain c where c: "client (reached h evs) = Some c" and g: "calls_grow ?c0 c"
    by (cases "client (reached h evs)") auto
  have "lc_command c = ?cmd \<and> set (lc_calls c) \<subseteq> {CallStop, CallStart ?cmd}"
    by (rule calls_grow_inv [OF g]) simp_all
  with c show ?thesis by simp
qed

theorem restart_starts_the_activation_command_witness:
  "\<exists>c. client (reached host_a config_restart_trace) = Some c
       \<and> lc_command c = ''/opt/a/l-language-server''
       \<and> set (lc_calls c) \<subseteq> {CallStop, CallStart ''/opt/a/l-language-server''}"
proof -
  have "fst (locateServer host_a activation_log) = ''/opt/a/l-language-server''"
    by code_simp
  with restart_starts_the_activation_command [of host_a config_restart_trace]
  show ?thesis by simp
qed

subsection \<open>C3: the alert after repeated faults\<close>

text \<open>
  C3 as stated fails. The claim: in a run of consecutive faults the alert fires exactly
  once, on the fifth, and a sixth fault fires no further alert. The handler tests
  \<open>count >= 5\<close> and keeps nothing between calls: four faults show no alert, five show
  one, six show two.
\<close>

theorem sixth_fault_alerts_again_counterexample:
  "errorMessages (fault_run io_error ''{}'' 4 running_state) = []
   \<and> errorMessages (fault_run io_error ''{}'' 5 running_state) = [error_alert 5]
   \<and> errorMessages (fault_run io_error ''{}'' 6 running_state) = [error_alert 5, error_alert 6]"
  by code_simp

text \<open>
  C3, amended: the handler has no counter and no latch of its own. The client passes
  the count with each fault, and in every state reached from \<open>activate\<close> the handler
  shows the alert on every fault whose count is at least 5: in a run of \<open>n\<close> consecutive
  faults counted 1 to \<open>n\<close>, on the fifth fault and on every later one.
\<close>

theorem error_alert_on_every_fault_from_the_fifth:
  "errorMessages (step (Fault e m n) (reached h evs)) =
     errorMessages (reached h evs) @ (if 5 \<le> n then [error_alert n] else [])
   \<and> errorMessages (fault_run e m n (reached h evs)) =
     errorMessages (reached h evs) @ map error_alert [5 ..< Suc n]"
proof
  obtain l where l: "outputChannel (reached h evs) = Some l"
    using reachable_channel [of h evs] by auto
  show "errorMessages (step (Fault e m n) (reached h evs)) =
     errorMessages (reached h evs) @ (if 5 \<le> n then [error_alert n] else [])"
    using errorHandler_error_Some(2) [OF l reachable_open] by simp
  have "errorMessages (fault_run e m n (reached h evs)) =
      errorMessages (reached h evs) @ map error_alert (filter (\<lambda>k. 5 \<le> k) [1 ..< Suc n])"
    unfolding fault_run_def
    by (rule fault_run_alerts [OF conjI [OF reachable_channel reachable_open]])
  then show "errorMessages (fault_run e m n (reached h evs)) =
     errorMessages (reached h evs) @ map error_alert [5 ..< Suc n]"
    by (simp only: filter_upt_ge)
qed

theorem error_alert_on_every_fault_from_the_fifth_witness:
  "errorMessages (step (Fault io_error ''{}'' 6) running_state) = [error_alert 6]
   \<and> errorMessages (fault_run io_error ''{}'' 7 running_state)
       = [error_alert 5, error_alert 6, error_alert 7]"
proof -
  have b: "errorMessages running_state = []" by code_simp
  have c: "[5 ..< Suc 7] = [5, 6, 7 :: nat]" by code_simp
  from error_alert_on_every_fault_from_the_fifth
         [of io_error "''{}''" 6 posix_host
             "[StateChange Starting, StateChange Running, ActivateStartSettled None]"]
    error_alert_on_every_fault_from_the_fifth
         [of io_error "''{}''" 7 posix_host
             "[StateChange Starting, StateChange Running, ActivateStartSettled None]"]
    b c
  show ?thesis unfolding running_state_def [symmetric] by simp
qed

subsection \<open>C4: the order of the locator\<close>

text \<open>
  C4 as stated fails. The claim: the environment variable, when set, wins over the
  candidate paths. \<open>process.env.SERVER_PATH\<close> is tested for truthiness, so a variable
  set to the empty string is passed over: with the release build on disk the locator
  returns its path, not the normalized value of the variable.
\<close>

theorem locateServer_empty_env_counterexample:
  "env_SERVER_PATH empty_env_host = Some []
   \<and> fst (locateServer empty_env_host []) = ''/ext/dist/../../target/release/l-language-server''
   \<and> fst (locateServer empty_env_host []) \<noteq> path_normalize empty_env_host []"
  by (simp add: empty_env_host_def posix_host_def locateServer_def chooseServer_def Let_def
      js_trim_Nil possiblePaths_def exe_name_def)

text \<open>
  C4, amended: a configured server path that is not empty after trimming wins, as it was
  configured; else \<open>SERVER_PATH\<close> when it is set to a non-empty string; else the first
  candidate, in order, for which \<open>existsSync\<close> returns true, a check that throws or
  returns false being passed over; else the fallback name \<open>l-language-server\<close>. The
  result is the choice after \<open>path.normalize\<close>. The locator is a total function of the
  host: no \<open>existsSync\<close> that throws makes it throw.
\<close>

theorem locateServer_priority:
  "(js_trim (cfg_serverPath h) \<noteq> [] \<longrightarrow>
      fst (locateServer h log) = path_normalize h (cfg_serverPath h))
   \<and> (js_trim (cfg_serverPath h) = [] \<and> env_SERVER_PATH h = Some e \<and> e \<noteq> [] \<longrightarrow>
      fst (locateServer h log) = path_normalize h e)
   \<and> (js_trim (cfg_serverPath h) = [] \<and> \<not> truthy (env_SERVER_PATH h)
       \<and> possiblePaths h = pre @ p # post
       \<and> (\<forall>q\<in>set pre. fs_existsSync h q \<noteq> Inr True) \<and> fs_existsSync h p = Inr True \<longrightarrow>
      fst (locateServer h log) = path_normalize h (if p = [] then ''l-language-server'' else p))
   \<and> (js_trim (cfg_serverPath h) = [] \<and> \<not> truthy (env_SERVER_PATH h)
       \<and> (\<forall>q\<in>set (possiblePaths h). fs_existsSync h q \<noteq> Inr True) \<longrightarrow>
      fst (locateServer h log) = path_normalize h ''l-language-server'')"
proof (intro conjI impI)
  assume "js_trim (cfg_serverPath h) \<noteq> []"
  then show "fst (locateServer h log) = path_normalize h (cfg_serverPath h)"
    by (auto simp: locateServer_def Let_def chooseServer_config js_trim_Nil)
next
  assume "js_trim (cfg_serverPath h) = [] \<and> env_SERVER_PATH h = Some e \<and> e \<noteq> []"
  then show "fst (locateServer h log) = path_normalize h e"
    by (simp add: locateServer_def Let_def chooseServer_env)
next
  assume a: "js_trim (cfg_serverPath h) = [] \<and> \<not> truthy (env_SERVER_PATH h)
       \<and> possiblePaths h = pre @ p # post
       \<and> (\<forall>q\<in>set pre. fs_existsSync h q \<noteq> Inr True) \<and> fs_existsSync h p = Inr True"
  then have "or_else (fst (chooseServer h log)) ''l-language-server'' = or_else (Some p) ''l-language-server''"
    by (intro chooseServer_candidate) auto
  then show "fst (locateServer h log) = path_normalize h (if p = [] then ''l-language-server'' else p)"
    by (simp add: locateServer_def Let_def)
next
  assume "js_trim (cfg_serverPath h) = [] \<and> \<not> truthy (env_SERVER_PATH h)
       \<and> (\<forall>q\<in>set (possiblePaths h). fs_existsSync h q \<noteq> Inr True)"
  then show "fst (locateServer h log) = path_normalize h ''l-language-server''"
    by (simp add: locateServer_def Let_def chooseServer_fallback)
qed

theorem locateServer_priority_witness:
  "fst (locateServer (posix_host\<lparr>cfg_serverPath := '' /opt/l/server '', env_SERVER_PATH := Some ''/env/server''\<rparr>) [])
     = '' /opt/l/server ''
   \<and> fst (locateServer (posix_host\<lparr>cfg_serverPath := ''  '', env_SERVER_PATH := Some ''/env/server''\<rparr>) [])
     = ''/env/server''
   \<and> fst (locateServer release_host []) = ''/ext/dist/../../target/release/l-language-server''
   \<and> fst (locateServer posix_host []) = ''l-language-server''"
proof (intro conjI)
  let ?h1 = "posix_host\<lparr>cfg_serverPath := '' /opt/l/server '', env_SERVER_PATH := Some ''/env/server''\<rparr>"
  have "js_trim (cfg_serverPath ?h1) \<noteq> []" by (simp add: js_trim_ex)
  with locateServer_priority [of ?h1 "[]"]
  show "fst (locateServer ?h1 []) = '' /opt/l/server ''"
    by (simp add: posix_host_def)
next
  let ?h2 = "posix_host\<lparr>cfg_serverPath := ''  '', env_SERVER_PATH := Some ''/env/server''\<rparr>"
  have "js_trim (cfg_serverPath ?h2) = [] \<and> env_SERVER_PATH ?h2 = Some ''/env/server'' \<and> ''/env/server'' \<noteq> []"
    by (simp add: js_trim_ex)
  with locateServer_priority [of ?h2 "[]" "''/env/server''"]
  show "fst (locateServer ?h2 []) = ''/env/server''"
    by (simp add: posix_host_def)
next
  have "js_trim (cfg_serverPath release_host) = [] \<and> \<not> truthy (env_SERVER_PATH release_host)
       \<and> possiblePaths release_host = [''/ext/dist/../../target/debug/l-language-server''] @ ''/ext/dist/../../target/release/l-language-server'' #
    [''/ext/dist/../../../target/debug/l-language-server'',
     ''/ext/dist/../../../target/release/l-language-server'',
     ''l-language-server'']
       \<and> (\<forall>q\<in>set [''/ext/dist/../../target/debug/l-language-server'']. fs_existsSync release_host q \<noteq> Inr True) \<and> fs_existsSync release_host ''/ext/dist/../../target/release/l-language-server'' = Inr True"
    by (simp add: release_host_def posix_host_def js_trim_Nil possiblePaths_def exe_name_def)
  with locateServer_priority [of release_host "[]" _ "[''/ext/dist/../../target/debug/l-language-server'']" "''/ext/dist/../../target/release/l-language-server''"]
  show "fst (locateServer release_host []) = ''/ext/dist/../../target/release/l-language-server''"
    by (simp add: release_host_def posix_host_def)
next
  have "js_trim (cfg_serverPath posix_host) = [] \<and> \<not> truthy (env_SERVER_PATH posix_host)
       \<and> (\<forall>q\<in>set (possiblePaths posix_host). fs_existsSync posix_host q \<noteq> Inr True)"
    by (simp add: posix_host_def js_trim_Nil)
  with locateServer_priority [of posix_host "[]"]
  show "fst (locateServer posix_host []) = ''l-language-server''"
    by (simp add: posix_host_def)
qed

subsection \<open>C5: the debounce timer\<close>



subsection \<open>C6: events after deactivate\<close>

text \<open>
  C6: the host calls \<open>deactivate\<close> and disposes the subscriptions in the same turn
  (\<open>host_deactivate\<close>). In every state reached from \<open>activate\<close>, once that has happened
  the disposing flag is set and no timer is armed, and whatever events follow (timers
  firing, state changes of the client, the command, configuration changes, a \<open>stop()\<close>
  or \<open>start()\<close> settling, faults) the module does not write the status bar item, makes
  no further call of \<open>client.start()\<close>, and begins no further restart: the calls of
  \<open>restartServer\<close> in flight are those that were in flight before.
\<close>

theorem deactivate_is_terminal:
  "isDisposing (host_deactivate (reached h pre))
   \<and> timers (host_deactivate (reached h pre)) = []
   \<and> configChangeTimer (host_deactivate (reached h pre)) = None
   \<and> statusBarItem (run evs (host_deactivate (reached h pre)))
       = statusBarItem (host_deactivate (reached h pre))
   \<and> start_calls (run evs (host_deactivate (reached h pre))) = start_calls (reached h pre)
   \<and> length (restarts (run evs (host_deactivate (reached h pre))))
       = length (restarts (reached h pre))"
proof -
  let ?s = "reached h pre"
  let ?d = "host_deactivate ?s"
  have d: "isDisposing ?d" and c: "channelClosed ?d" by (rule host_deactivate_fields)+
  have tm: "timers ?d = []" "configChangeTimer ?d = None"
    using deactivate_timers [OF reachable_timer_inv, of h pre]
    by (simp_all add: host_deactivate_def dispose_subscriptions_def)
  have "evolves ?d (run evs ?d)" by (rule evolves_run)
  with d have bar: "statusBarItem (run evs ?d) = statusBarItem ?d" by (simp add: evolves_def)
  have st: "start_calls (run evs ?d) = start_calls ?s"
    using closed_run_start_calls [OF c, of evs] by (simp add: host_deactivate_fields)
  have len: "length (restarts (run evs ?d)) = length (restarts ?s)"
    using disposing_run_length [OF d, of evs] by (simp add: host_deactivate_fields)
  from d tm bar st len show ?thesis by simp
qed

theorem deactivate_is_terminal_witness:
  "start_calls (run [StateChange Stopped, TimerFire 0, Command]
                  (host_deactivate (reached posix_host restart_waiting_trace)))
     = [CallStart ''l-language-server'']
   \<and> length (restarts (run [StateChange Stopped, TimerFire 0, Command]
                  (host_deactivate (reached posix_host restart_waiting_trace)))) = 1"
proof -
  have a: "start_calls (reached posix_host restart_waiting_trace)
      = [CallStart ''l-language-server'']"
    "restarts (reached posix_host restart_waiting_trace) = [AwaitStateChange]"
    by code_simp+
  from deactivate_is_terminal
         [of posix_host restart_waiting_trace "[StateChange Stopped, TimerFire 0, Command]"] a
  show ?thesis by simp
qed

text \<open>
  How a restart that is in flight ends. A call of \<open>restartServer\<close> that waits for a state
  change when the extension is deactivated is woken by the next state change (the
  subscriber of lines 460-465 resolves on \<open>isDisposing\<close>). The function does not test
  the flag again, and may still call \<open>client.stop()\<close> (line 477) if the client reports
  \<open>Running\<close>; it ends at \<open>outputChannel.appendLine\<close>, which throws on the closed channel
  at line 478 or 480, then in the handlers of lines 485 and 516, so that line 491 is not
  reached. A call that waits for its \<open>stop()\<close> ends the same way at line 453, and a timer
  callback or the command at line 426.
\<close>

lemma waiting_restart_ends_at_the_closed_channel:
  "restarts (reached posix_host restart_waiting_trace) = [AwaitStateChange]
   \<and> start_calls (reached posix_host restart_waiting_trace)
       = [CallStart ''l-language-server'']
   \<and> restarts (run [StateChange Stopped, TimerFire 0, Command]
                 (host_deactivate (reached posix_host restart_waiting_trace)))
       = [Returned]
   \<and> map_option lc_calls (client (run [StateChange Stopped, TimerFire 0, Command]
                 (host_deactivate (reached posix_host restart_waiting_trace))))
       = Some [CallStart ''l-language-server'', CallStop]"
  by code_simp

text \<open>
  It is the closed channel that ends it: after the call of \<open>deactivate\<close> alone, with the
  channel left open, the same state change lets the waiting call go on to \<open>start()\<close>.
\<close>

lemma open_channel_lets_the_waiting_restart_go_on:
  "map_option lc_calls (client (run [Deactivate, StateChange Stopped]
                 (reached posix_host restart_waiting_trace)))
     = Some [CallStart ''l-language-server'', CallStop, CallStart ''l-language-server'']"
  by code_simp

subsection \<open>C7: stale state-change events\<close>

text \<open>
  C7 as stated fails. The claim: events carry a generation and the status bar ignores
  an event of a superseded generation. The event has the old and the new state only,
  and the subscriber passes the new state to \<open>updateStatusBar\<close>: with the client
  \<open>Running\<close> and the status bar showing it, a late \<open>Stopped\<close> event of an earlier
  instance turns the status bar to stopped.
\<close>

theorem stale_event_changes_status_bar_counterexample:
  "map_option lc_state (client running_state) = Some Running
   \<and> map_option sb_text (statusBarItem running_state) = Some ''$(check) L Language Server''
   \<and> map_option sb_text (statusBarItem
         (snd (stateChangeListener \<lparr>oldState = Running, newState = Stopped\<rparr> running_state)))
       = Some ''$(x) L Language Server''"
  by code_simp

text \<open>
  C7, amended: a state-change event carries the old and the new state and no
  generation. Unless the extension is disposing, the status bar after an event shows
  the new state of that event, whatever the client's state and whichever instance the
  event came from; when the extension is disposing, the event changes nothing.
\<close>

theorem status_bar_follows_every_event:
  "statusBarItem (snd (stateChangeListener ev s)) =
     (if isDisposing s then statusBarItem s
      else map_option (status_for (newState ev)) (statusBarItem s))
   \<and> statusBarItem (step (StateChange new) s) =
     (if isDisposing s \<or> client s = None then statusBarItem s
      else map_option (status_for new) (statusBarItem s))"
  by (simp add: stateChangeListener_def updateStatusBar_def state_changed_bar(1)
      split: option.splits)

theorem status_bar_follows_every_event_witness:
  "statusBarItem (snd (stateChangeListener \<lparr>oldState = Stopped, newState = Starting\<rparr> running_state))
     = Some \<lparr>sb_text = ''$(sync~spin) L Language Server'',
             sb_tooltip = ''L Language Server is starting...'',
             sb_color = None, sb_shown = True\<rparr>
   \<and> map_option sb_text (statusBarItem (step (StateChange Stopped) running_state))
     = Some ''$(x) L Language Server''"
proof -
  have a: "\<not> isDisposing running_state" "client running_state \<noteq> None" by code_simp+
  have b: "statusBarItem running_state = Some \<lparr>sb_text = ''$(check) L Language Server'',
             sb_tooltip = ''L Language Server is running'',
             sb_color = None, sb_shown = True\<rparr>" by code_simp
  from status_bar_follows_every_event
         [of "\<lparr>oldState = Stopped, newState = Starting\<rparr>" running_state Stopped]
    a b show ?thesis by simp
qed

subsection \<open>C8: the decisions of the error handler\<close>

text \<open>
  C8: in every state reached from \<open>activate\<close>, for every error, message and count,
  \<open>error\<close> returns \<open>Continue\<close> and makes no call on the client, and \<open>closed\<close> returns
  \<open>Restart\<close>.
\<close>

theorem error_handler_always_continues_and_restarts:
  "fst (errorHandler_error e m n (reached h evs)) = Inr Continue
   \<and> client (snd (errorHandler_error e m n (reached h evs))) = client (reached h evs)
   \<and> fst (errorHandler_closed (reached h evs)) = Inr Restart"
proof -
  obtain l where l: "outputChannel (reached h evs) = Some l"
    using reachable_channel [of h evs] by auto
  show ?thesis
    using errorHandler_error_Some(1) [OF l reachable_open]
      errorHandler_error_Some(4) [OF l reachable_open]
      errorHandler_closed_Some [OF l reachable_open] by simp
qed

theorem error_handler_always_continues_and_restarts_witness:
  "fst (errorHandler_error io_error ''{}'' 9 running_state) = Inr Continue
   \<and> fst (errorHandler_closed running_state) = Inr Restart"
  using error_handler_always_continues_and_restarts
    [of io_error "''{}''" 9 posix_host
        "[StateChange Starting, StateChange Running, ActivateStartSettled None]"]
  by (simp add: running_state_def)

subsection \<open>C9: which configuration changes schedule a restart\<close>

text \<open>
  C9, the code at the failing input. One event in which both the trace setting and the
  server path changed affects \<open>l-language-server.trace.server\<close>, so the function returns
  at line 402 and arms no timer, although a setting other than the trace setting
  changed; the change of the server path alone arms the timer. The comment of line 399
  says the early return is for a change of the trace setting only.
\<close>

theorem trace_change_hides_other_changes:
  "changed_keys [''l-language-server.trace.server'', ''l-language-server.serverPath'']
     ''l-language-server''
   \<and> configChangeTimer (step (ConfigChange
        (changed_keys [''l-language-server.trace.server'', ''l-language-server.serverPath'']))
        running_state) = None
   \<and> timers (step (ConfigChange
        (changed_keys [''l-language-server.trace.server'', ''l-language-server.serverPath'']))
        running_state) = []
   \<and> configChangeTimer (step (ConfigChange (changed_keys [''l-language-server.serverPath'']))
        running_state) = Some 0"
  by code_simp

text \<open>What the code does for every event: the timer is armed exactly when the event
  affects the section and does not affect the trace setting.\<close>

lemma handleConfigurationChange_schedules:
  assumes "outputChannel s \<noteq> None" and op: "\<not> channelClosed s"
  shows "configChangeTimer (snd (handleConfigurationChange ev s)) =
           (if ev ''l-language-server'' \<and> \<not> ev ''l-language-server.trace.server''
            then Some (timerSeq s) else configChangeTimer s)"
proof (cases "ev ''l-language-server'' \<and> \<not> ev ''l-language-server.trace.server''")
  case True
  from assms obtain l where l: "outputChannel s = Some l" by auto
  from True show ?thesis by (simp add: handleConfigurationChange_arm [OF _ _ l op])
next
  case False
  have "quiet s (snd (handleConfigurationChange ev s))"
    by (rule handleConfigurationChange_skip [OF False])
  with False show ?thesis by (auto simp: quiet_def)
qed

subsection \<open>C10: the entry points without a client\<close>



text \<open>
  The two branches are not taken in any run: in every state reached from \<open>activate\<close>
  the client exists (\<open>reachable_client\<close>). In the module as loaded, before \<open>activate\<close>
  has run, \<open>outputChannel\<close> is undefined as well and the \<open>appendLine\<close> of the branch
  throws; no call arrives then, since the host calls \<open>deactivate\<close> only for an extension
  that it has activated and the command is registered by \<open>activate\<close>.
\<close>

lemma deactivate_before_activate:
  "deactivate module_init =
     (Inl (undefined_read ''appendLine''), module_init\<lparr>isDisposing := True\<rparr>)"
  by (simp add: deactivate_def deactivate_timer_def deactivate_client_def module_init_def
      js_then_def js_bind_def js_return_def appendLine_def)

end
